theory Spec2Isabelle
  imports Main
begin

section \<open>Vector arrays (pymor/vectorarrays/numpy.py)\<close>

text \<open>
  The scalars of an array are kept abstract (a type variable): the arithmetic of the
  theorems below is exact arithmetic in a ring, rounding of floating point numbers is
  not modelled.  An assertion of the source that fails is the error
  \<open>AssertionError\<close>; assertions are enabled.  \<open>InvalidFormatError\<close> is a name of the
  specification's error taxonomy: no function of the model constructs it.
\<close>

datatype error = AssertionError | IndexError | ValueError | AttributeError | LinAlgError
  | InvalidFormatError

datatype dtype = int64 | float64 | complex128

fun promote_types :: "dtype \<Rightarrow> dtype \<Rightarrow> dtype" where
  "promote_types complex128 d = complex128"
| "promote_types d complex128 = complex128"
| "promote_types float64 d = float64"
| "promote_types d float64 = float64"
| "promote_types int64 int64 = int64"

text \<open>
  A two-dimensional NumPy array: its rows, \<open>shape[1]\<close> (which an array without rows
  still has) and its element type.
\<close>

record 'a ndarray =
  rows :: "'a list list"
  ncols :: nat
  dtype :: dtype

text \<open>
  A \<open>NumpyVectorArray\<close> object: \<open>_array\<close> and \<open>_refcount\<close> are references (to an
  array and to a one-element list holding the counter), \<open>_len\<close> is a value.
\<close>

record va =
  array :: nat
  len :: nat
  refcount :: nat

text \<open>
  The store: arrays, reference counters and vector array objects, each addressed by its
  position.  Allocation appends, so a new address is never one in use.
\<close>

record 'a heap =
  arrays :: "'a ndarray list"
  counters :: "int list"
  objects :: "va list"

datatype index = Number int | List "int list"

datatype 'a coefficient = Num dtype 'a | NdArray dtype "'a list"

definition new_array :: "'a heap \<Rightarrow> 'a ndarray \<Rightarrow> 'a heap \<times> nat" where
  "new_array h a = (h\<lparr>arrays := arrays h @ [a]\<rparr>, length (arrays h))"

definition new_counter :: "'a heap \<Rightarrow> int \<Rightarrow> 'a heap \<times> nat" where
  "new_counter h n = (h\<lparr>counters := counters h @ [n]\<rparr>, length (counters h))"


definition the_array :: "'a heap \<Rightarrow> nat \<Rightarrow> 'a ndarray" where
  "the_array h v = arrays h ! array (objects h ! v)"

definition the_count :: "'a heap \<Rightarrow> nat \<Rightarrow> int" where
  "the_count h v = counters h ! refcount (objects h ! v)"

definition dim :: "'a heap \<Rightarrow> nat \<Rightarrow> nat" where
  "dim h v = ncols (the_array h v)"

text \<open>The property \<open>data\<close>: \<open>self._array[:self._len]\<close>, the logical contents.\<close>

definition data :: "'a heap \<Rightarrow> nat \<Rightarrow> 'a list list" where
  "data h v = take (len (objects h ! v)) (rows (the_array h v))"

definition set_array :: "'a heap \<Rightarrow> nat \<Rightarrow> nat \<Rightarrow> 'a heap" where
  "set_array h v a = h\<lparr>objects := (objects h)[v := (objects h ! v)\<lparr>array := a\<rparr>]\<rparr>"

definition set_len :: "'a heap \<Rightarrow> nat \<Rightarrow> nat \<Rightarrow> 'a heap" where
  "set_len h v n = h\<lparr>objects := (objects h)[v := (objects h ! v)\<lparr>len := n\<rparr>]\<rparr>"

definition set_refcount :: "'a heap \<Rightarrow> nat \<Rightarrow> nat \<Rightarrow> 'a heap" where
  "set_refcount h v r = h\<lparr>objects := (objects h)[v := (objects h ! v)\<lparr>refcount := r\<rparr>]\<rparr>"

text \<open>Writing into the array an object refers to, in place.\<close>

definition set_rows :: "'a heap \<Rightarrow> nat \<Rightarrow> 'a list list \<Rightarrow> 'a heap" where
  "set_rows h v rs =
     h\<lparr>arrays := (arrays h)[array (objects h ! v) := (the_array h v)\<lparr>rows := rs\<rparr>]\<rparr>"

text \<open>\<open>self._array = <a new array>\<close>.\<close>

definition assign_array :: "'a heap \<Rightarrow> nat \<Rightarrow> 'a ndarray \<Rightarrow> 'a heap" where
  "assign_array h v a = (case new_array h a of (h1, p) \<Rightarrow> set_array h1 v p)"

text \<open>\<open>self._array = self._array.astype(d)\<close>: \<open>astype\<close> returns a new array.\<close>

definition astype :: "'a heap \<Rightarrow> nat \<Rightarrow> dtype \<Rightarrow> 'a heap" where
  "astype h v d = assign_array h v ((the_array h v)\<lparr>dtype := d\<rparr>)"

text \<open>
  \<open>_deep_copy\<close>: copy the array data, decrease the counter of the original array, create
  a new counter.
\<close>

definition deep_copy :: "'a heap \<Rightarrow> nat \<Rightarrow> 'a heap" where
  "deep_copy h v =
     (let h1 = assign_array h v (the_array h v);
          r = refcount (objects h1 ! v);
          h2 = h1\<lparr>counters := (counters h1)[r := counters h1 ! r - 1]\<rparr>
      in case new_counter h2 1 of (h3, r') \<Rightarrow> set_refcount h3 v r')"

text \<open>
  The copy-on-write guard every mutator starts with:
  \<open>if self._refcount[0] > 1: self._deep_copy()\<close>.
\<close>

definition unshare :: "'a heap \<Rightarrow> nat \<Rightarrow> 'a heap" where
  "unshare h v = (if 1 < the_count h v then deep_copy h v else h)"

text \<open>
  Modelled from the spec: \<open>check_ind\<close>, \<open>check_ind_unique\<close> and \<open>len_ind\<close> of
  \<open>pymor/vectorarrays/interfaces.py\<close> are not among the sources.  The specification
  has indices fail when they are "out of \<open>[0, length)\<close> or contain duplicates where
  uniqueness is required"; \<open>len_ind\<close> is the number of selected rows.
\<close>

definition check_ind :: "nat \<Rightarrow> index option \<Rightarrow> bool" where
  "check_ind n ind =
     (case ind of None \<Rightarrow> True
      | Some (Number i) \<Rightarrow> 0 \<le> i \<and> i < int n
      | Some (List js) \<Rightarrow> list_all (\<lambda>i. 0 \<le> i \<and> i < int n) js)"

definition check_ind_unique :: "nat \<Rightarrow> index option \<Rightarrow> bool" where
  "check_ind_unique n ind =
     (case ind of None \<Rightarrow> True
      | Some (Number i) \<Rightarrow> 0 \<le> i \<and> i < int n
      | Some (List js) \<Rightarrow> list_all (\<lambda>i. 0 \<le> i \<and> i < int n) js \<and> distinct js)"

definition len_ind :: "nat \<Rightarrow> index option \<Rightarrow> nat" where
  "len_ind n ind =
     (case ind of None \<Rightarrow> n | Some (Number i) \<Rightarrow> 1 | Some (List js) \<Rightarrow> length js)"

text \<open>
  Indexing the rows of an array as NumPy does: a negative index counts from the end, an
  index out of range raises \<open>IndexError\<close>.  Indexing with a list gives a new array.
\<close>

definition row_pos :: "nat \<Rightarrow> int \<Rightarrow> error + nat" where
  "row_pos n i =
     (if 0 \<le> i \<and> i < int n then Inr (nat i)
      else if - int n \<le> i \<and> i < 0 then Inr (nat (int n + i))
      else Inl IndexError)"

fun rows_pos :: "nat \<Rightarrow> int list \<Rightarrow> error + nat list" where
  "rows_pos n [] = Inr []"
| "rows_pos n (i # js) =
     (case row_pos n i of Inl e \<Rightarrow> Inl e
      | Inr p \<Rightarrow> (case rows_pos n js of Inl e \<Rightarrow> Inl e | Inr ps \<Rightarrow> Inr (p # ps)))"

definition getitem :: "'a ndarray \<Rightarrow> int list \<Rightarrow> error + 'a ndarray" where
  "getitem a js =
     (case rows_pos (length (rows a)) js of Inl e \<Rightarrow> Inl e
      | Inr ps \<Rightarrow> Inr (a\<lparr>rows := map (\<lambda>p. rows a ! p) ps\<rparr>))"




text \<open>
  \<open>remove\<close> (also \<open>__delitem__\<close>).  \<open>remaining\<close> is
  \<open>sorted(set(range(len(self))) - set(ind))\<close>.  The arrays assigned are new ones (the
  result of \<open>np.zeros\<close> or of indexing with a list), so the final test of \<open>OWNDATA\<close>
  changes no contents.
\<close>

definition remaining :: "nat \<Rightarrow> int list \<Rightarrow> int list" where
  "remaining n js = sorted_list_of_set (set (map int [0..<n]) - set js)"

definition remove :: "'a heap \<Rightarrow> nat \<Rightarrow> index option \<Rightarrow> error + 'a heap" where
  "remove h v ind =
     (if \<not> check_ind (len (objects h ! v)) ind then Inl AssertionError
      else
        let h1 = unshare h v; self = objects h1 ! v in
        case ind of
          None \<Rightarrow>
            Inr (set_len (assign_array h1 v \<lparr>rows = [], ncols = dim h1 v, dtype = float64\<rparr>) v 0)
        | Some (List js) \<Rightarrow>
            if length js = 0 then Inr h1
            else
              (case getitem (the_array h1 v) (remaining (len self) js) of
                 Inl e \<Rightarrow> Inl e
               | Inr a \<Rightarrow> Inr (set_len (assign_array h1 v a) v (length (rows a))))
        | Some (Number i) \<Rightarrow>
            if \<not> (- int (len self) < i \<and> i < int (len self)) then Inl AssertionError
            else
              (case getitem (the_array h1 v) ([0..i - 1] @ [i + 1..int (len self) - 1]) of
                 Inl e \<Rightarrow> Inl e
               | Inr a \<Rightarrow> Inr (set_len (assign_array h1 v a) v (length (rows a)))))"


subsection \<open>scal and axpy\<close>

text \<open>
  The NumPy operations the two mutators use, on the shapes their assertions admit: an
  operand with one row is broadcast against \<open>n\<close> rows; \<open>a[:n] op= V\<close> changes the first
  \<open>n\<close> rows, \<open>a[i] op= r\<close> one row, \<open>a[js] op= V\<close> computes the selected rows from the
  array as it is and stores them one after another.
\<close>

definition broadcast :: "nat \<Rightarrow> 'b list \<Rightarrow> 'b list" where
  "broadcast n V = (if length V = 1 then replicate n (hd V) else V)"

definition slice_op :: "('a \<Rightarrow> 'a \<Rightarrow> 'a) \<Rightarrow> 'a list list \<Rightarrow> nat \<Rightarrow> 'a list list \<Rightarrow> 'a list list" where
  "slice_op f a n V = map2 (map2 f) (take n a) (broadcast (min n (length a)) V) @ drop n a"

definition row_op :: "('a \<Rightarrow> 'a \<Rightarrow> 'a) \<Rightarrow> 'a list list \<Rightarrow> int \<Rightarrow> 'a list \<Rightarrow> error + 'a list list" where
  "row_op f a i r =
     (case row_pos (length a) i of Inl e \<Rightarrow> Inl e
      | Inr p \<Rightarrow> Inr (a[p := map2 f (a ! p) (broadcast (length (a ! p)) r)]))"

fun store_rows :: "'a list list \<Rightarrow> nat list \<Rightarrow> 'a list list \<Rightarrow> 'a list list" where
  "store_rows a (p # ps) (r # rs) = store_rows (a[p := r]) ps rs"
| "store_rows a ps rs = a"

definition rows_op :: "('a \<Rightarrow> 'a \<Rightarrow> 'a) \<Rightarrow> 'a list list \<Rightarrow> int list \<Rightarrow> 'a list list \<Rightarrow> error + 'a list list" where
  "rows_op f a js V =
     (case rows_pos (length a) js of Inl e \<Rightarrow> Inl e
      | Inr ps \<Rightarrow>
          Inr (store_rows a ps (map2 (map2 f) (map (\<lambda>p. a ! p) ps) (broadcast (length ps) V))))"

text \<open>\<open>np.all(alpha == c)\<close>, the element type and the shape of a coefficient.\<close>

fun all_eq :: "'a coefficient \<Rightarrow> 'a \<Rightarrow> bool" where
  "all_eq (Num d a) c = (a = c)"
| "all_eq (NdArray d as) c = list_all (\<lambda>a. a = c) as"

fun alpha_dtype :: "'a coefficient \<Rightarrow> dtype" where
  "alpha_dtype (Num d a) = d"
| "alpha_dtype (NdArray d as) = d"

fun check_alpha :: "'a coefficient \<Rightarrow> nat \<Rightarrow> bool" where
  "check_alpha (Num d a) n = True"
| "check_alpha (NdArray d as) n = (length as = n)"

text \<open>
  \<open>B * alpha\<close>, for a number, and for a one-dimensional array after
  \<open>alpha = alpha[:, np.newaxis]\<close>, when each row has its own coefficient.
\<close>

fun times_alpha :: "'a::times list list \<Rightarrow> 'a coefficient \<Rightarrow> 'a list list" where
  "times_alpha B (Num d a) = map (map (\<lambda>b. b * a)) B"
| "times_alpha B (NdArray d as) =
     map2 (\<lambda>r a. map (\<lambda>b. b * a) r)
       (broadcast (length as) B) (broadcast (if length B = 1 then length as else length B) as)"

definition is_number :: "index option \<Rightarrow> bool" where
  "is_number ind = (case ind of Some (Number i) \<Rightarrow> True | _ \<Rightarrow> False)"

definition has_len :: "index option \<Rightarrow> bool" where
  "has_len ind = (case ind of Some (List js) \<Rightarrow> True | _ \<Rightarrow> False)"

text \<open>
  The three forms of an in-place operation on the selected rows:
  \<open>self._array[:self._len] op= V\<close>, \<open>self._array[ind] op= V.reshape(..)\<close> for a number,
  \<open>self._array[ind] op= V\<close> for a list.
\<close>

definition update_selected ::
  "('a \<Rightarrow> 'a \<Rightarrow> 'a) \<Rightarrow> 'a heap \<Rightarrow> nat \<Rightarrow> index option \<Rightarrow> 'a list list \<Rightarrow> error + 'a heap" where
  "update_selected f h v ind V =
     (let a = rows (the_array h v) in
      case ind of
        None \<Rightarrow> Inr (set_rows h v (slice_op f a (len (objects h ! v)) V))
      | Some (Number i) \<Rightarrow>
          (case row_op f a i (concat V) of Inl e \<Rightarrow> Inl e | Inr a' \<Rightarrow> Inr (set_rows h v a'))
      | Some (List js) \<Rightarrow>
          (case rows_op f a js V of Inl e \<Rightarrow> Inl e | Inr a' \<Rightarrow> Inr (set_rows h v a')))"



text \<open>
  The three branches of \<open>axpy\<close> after the fast path for zero: addition for \<open>alpha == 1\<close>,
  subtraction for \<open>alpha == -1\<close>, multiply-and-add otherwise.
\<close>

definition axpy_add :: "'a::plus heap \<Rightarrow> nat \<Rightarrow> index option \<Rightarrow> 'a list list \<Rightarrow> error + 'a heap" where
  "axpy_add h v ind B = update_selected (\<lambda>x y. x + y) h v ind B"

definition axpy_sub :: "'a::minus heap \<Rightarrow> nat \<Rightarrow> index option \<Rightarrow> 'a list list \<Rightarrow> error + 'a heap" where
  "axpy_sub h v ind B = update_selected (\<lambda>x y. x - y) h v ind B"

definition axpy_mul ::
  "'a::{plus,times} heap \<Rightarrow> nat \<Rightarrow> index option \<Rightarrow> 'a list list \<Rightarrow> 'a coefficient \<Rightarrow> error + 'a heap" where
  "axpy_mul h v ind B alpha = update_selected (\<lambda>x y. x + y) h v ind (times_alpha B alpha)"

definition axpy ::
  "bool \<Rightarrow> 'a::ring_1 heap \<Rightarrow> nat \<Rightarrow> 'a coefficient \<Rightarrow> nat \<Rightarrow> index option \<Rightarrow> error + 'a heap" where
  "axpy quirk h v alpha x ind =
     (let n = len (objects h ! v) in
      if \<not> check_ind_unique n ind then Inl AssertionError
      else if dim h v \<noteq> dim h x then Inl AssertionError
      else if \<not> (len_ind n ind = len (objects h ! x) \<or> len (objects h ! x) = 1)
        then Inl AssertionError
      else if \<not> check_alpha alpha (len_ind n ind) then Inl AssertionError
      else
        let h1 = unshare h v;
            ind1 = (if quirk \<and> len (objects h1 ! v) = 0 \<and> has_len ind then None else ind)
        in
        if all_eq alpha 0 then Inr h1
        else
          let B = data h1 x;
              h2 = (if dtype (the_array h1 v) \<noteq> alpha_dtype alpha
                       \<or> dtype (the_array h1 v) \<noteq> dtype (the_array h1 x)
                    then astype h1 v
                           (promote_types (promote_types (dtype (the_array h1 v)) (alpha_dtype alpha))
                              (dtype (the_array h1 x)))
                    else h1)
          in if all_eq alpha 1 then axpy_add h2 v ind1 B
             else if all_eq alpha (- 1) then axpy_sub h2 v ind1 B
             else axpy_mul h2 v ind1 B alpha)"

text \<open>
  For the comparison of the fast paths with the general path: \<open>axpy\<close> with the two
  specialised branches taken out, so that every \<open>alpha\<close> that is not uniformly zero goes
  through \<open>self._array[..] += (B * alpha)\<close>.
\<close>

definition axpy_general ::
  "bool \<Rightarrow> 'a::ring_1 heap \<Rightarrow> nat \<Rightarrow> 'a coefficient \<Rightarrow> nat \<Rightarrow> index option \<Rightarrow> error + 'a heap" where
  "axpy_general quirk h v alpha x ind =
     (let n = len (objects h ! v) in
      if \<not> check_ind_unique n ind then Inl AssertionError
      else if dim h v \<noteq> dim h x then Inl AssertionError
      else if \<not> (len_ind n ind = len (objects h ! x) \<or> len (objects h ! x) = 1)
        then Inl AssertionError
      else if \<not> check_alpha alpha (len_ind n ind) then Inl AssertionError
      else
        let h1 = unshare h v;
            ind1 = (if quirk \<and> len (objects h1 ! v) = 0 \<and> has_len ind then None else ind)
        in
        if all_eq alpha 0 then Inr h1
        else
          let B = data h1 x;
              h2 = (if dtype (the_array h1 v) \<noteq> alpha_dtype alpha
                       \<or> dtype (the_array h1 v) \<noteq> dtype (the_array h1 x)
                    then astype h1 v
                           (promote_types (promote_types (dtype (the_array h1 v)) (alpha_dtype alpha))
                              (dtype (the_array h1 x)))
                    else h1)
          in axpy_mul h2 v ind1 B alpha)"

subsection \<open>amax\<close>



subsection \<open>Well-formed stores\<close>

text \<open>
  Every object refers to an array and a counter of the store, its logical length is at
  most the capacity of its array, its counter is at least one, and every row of an
  array has \<open>shape[1]\<close> entries.
\<close>

definition well_formed :: "'a heap \<Rightarrow> bool" where
  "well_formed h =
     (list_all (\<lambda>ob. array ob < length (arrays h) \<and> refcount ob < length (counters h)
                   \<and> len ob \<le> length (rows (arrays h ! array ob))
                   \<and> 1 \<le> counters h ! refcount ob) (objects h)
      \<and> list_all (\<lambda>a. list_all (\<lambda>r. length r = ncols a) (rows a)) (arrays h))"

subsection \<open>Predicates on two stores\<close>

text \<open>
  \<open>owns h h' w\<close>: in \<open>h'\<close> the object \<open>w\<close> refers to an array and to a counter that did
  not exist in \<open>h\<close>, and the counter is one.  \<open>frame h h' V\<close>: from \<open>h\<close> to \<open>h'\<close> only
  the objects in \<open>V\<close> have changed, and no array of \<open>h\<close> has.  \<open>grow\<close> and \<open>prepare\<close>
  name the two halves of \<open>append\<close> before the removal.
\<close>

definition owns :: "'a heap \<Rightarrow> 'a heap \<Rightarrow> nat \<Rightarrow> bool" where
  "owns h h' w \<longleftrightarrow>
     length (arrays h) \<le> array (objects h' ! w) \<and> array (objects h' ! w) < length (arrays h') \<and>
     length (counters h) \<le> refcount (objects h' ! w) \<and>
     refcount (objects h' ! w) < length (counters h') \<and> the_count h' w = 1"

definition frame :: "'a heap \<Rightarrow> 'a heap \<Rightarrow> nat set \<Rightarrow> bool" where
  "frame h h' V \<longleftrightarrow>
     length (objects h') = length (objects h) \<and>
     (\<forall>g<length (objects h). g \<notin> V \<longrightarrow> objects h' ! g = objects h ! g) \<and>
     length (arrays h) \<le> length (arrays h') \<and>
     (\<forall>p<length (arrays h). arrays h' ! p = arrays h ! p) \<and>
     length (counters h) \<le> length (counters h')"

definition priv :: "'a heap \<Rightarrow> 'a heap \<Rightarrow> nat \<Rightarrow> nat set \<Rightarrow> bool" where
  "priv h h' v V \<longleftrightarrow> frame h h' V \<and> owns h h' v \<and> v \<in> V"



subsection \<open>Mutators and the copy-on-write split\<close>





text \<open>
  \<open>cow_split h v ws h'\<close>: in \<open>h'\<close> the object \<open>v\<close> holds a buffer that is new, that no
  other object refers to and whose counter is one, and every other object (those in
  \<open>ws\<close> apart) has the logical contents it had in \<open>h\<close>.
\<close>

definition cow_split :: "'a heap \<Rightarrow> nat \<Rightarrow> nat list \<Rightarrow> 'a heap \<Rightarrow> bool" where
  "cow_split h v ws h' \<longleftrightarrow>
     length (objects h') = length (objects h) \<and>
     length (arrays h) \<le> array (objects h' ! v) \<and>
     the_count h' v = 1 \<and>
     (\<forall>g<length (objects h). g \<noteq> v \<longrightarrow> array (objects h' ! g) \<noteq> array (objects h' ! v)) \<and>
     (\<forall>g<length (objects h). g \<noteq> v \<longrightarrow> g \<notin> set ws \<longrightarrow> data h' g = data h g)"

text \<open>A store with one array of capacity three and two logical rows, shared by two objects.\<close>

definition shared_store :: "int heap" where
  "shared_store =
     \<lparr>arrays = [\<lparr>rows = [[1, 2], [3, - 4], [0, 0]], ncols = 2, dtype = int64\<rparr>,
                \<lparr>rows = [[5, 6]], ncols = 2, dtype = int64\<rparr>],
      counters = [2, 1],
      objects = [\<lparr>array = 0, len = 2, refcount = 0\<rparr>, \<lparr>array = 1, len = 1, refcount = 1\<rparr>,
                 \<lparr>array = 0, len = 2, refcount = 0\<rparr>]\<rparr>"

text \<open>The number of rows an index selects in an object, as \<open>len_ind\<close> counts them.\<close>

definition selected :: "'a heap \<Rightarrow> nat \<Rightarrow> index option \<Rightarrow> nat" where
  "selected h v ind = (case ind of None \<Rightarrow> len (objects h ! v) | Some (Number i) \<Rightarrow> 1
               | Some (List js) \<Rightarrow> length js)"


section \<open>Operators to matrices (pymor/algorithms/to_matrix.py)\<close>

subsection \<open>Matrices of NumPy and SciPy\<close>

text \<open>
  A matrix is its shape, its entries by rows and its storage: \<open>None\<close> for a NumPy
  array, \<open>Some s\<close> for a SciPy sparse matrix in the scheme \<open>s\<close>.  The operations of
  NumPy and SciPy that the rules call are modelled by what they compute on the entries
  and by the kind of matrix they return.
\<close>

record 'a matrix =
  shape :: "nat \<times> nat"
  entries :: "'a list list"
  scheme :: "string option"

definition issparse :: "'a matrix \<Rightarrow> bool" where
  "issparse M = (scheme M \<noteq> None)"

definition sparse_formats :: "string list" where
  "sparse_formats = [''bsr'', ''coo'', ''csc'', ''csr'', ''dia'', ''dok'', ''lil'']"

text \<open>\<open>M.T\<close>: the transposed of a CSR matrix is a CSC matrix and conversely.\<close>

definition np_T :: "'a matrix \<Rightarrow> 'a matrix" where
  "np_T M =
     \<lparr>shape = (snd (shape M), fst (shape M)),
      entries = map (\<lambda>j. map (\<lambda>i. entries M ! i ! j) [0..<fst (shape M)]) [0..<snd (shape M)],
      scheme = (case scheme M of None \<Rightarrow> None
                | Some s \<Rightarrow> Some (if s = ''csr'' then ''csc'' else if s = ''csc'' then ''csr'' else s))\<rparr>"

text \<open>
  \<open>A.dot(B)\<close>.  The product of two sparse matrices is sparse, every product with an
  array on the right is an array.  For an array \<open>A\<close> and a sparse \<open>B\<close> NumPy does not
  compute a matrix product (it treats \<open>B\<close> as a scalar object); no rule calls \<open>dot\<close> on
  such a pair, and the model gives an error for it.
\<close>

definition np_dot :: "'a::semiring_1 matrix \<Rightarrow> 'a matrix \<Rightarrow> error + 'a matrix" where
  "np_dot A B =
     (if \<not> issparse A \<and> issparse B then Inl ValueError
      else if snd (shape A) \<noteq> fst (shape B) then Inl ValueError
      else Inr \<lparr>shape = (fst (shape A), snd (shape B)),
                entries = map (\<lambda>i. map (\<lambda>j. sum_list (map (\<lambda>l. entries A ! i ! l * entries B ! l ! j)
                                                          [0..<snd (shape A)]))
                                          [0..<snd (shape B)])
                              [0..<fst (shape A)],
                scheme = (if issparse A \<and> issparse B
                          then (if scheme A = Some ''csc'' \<or> scheme A = Some ''bsr'' then scheme A
                                else Some ''csr'')
                          else None)\<rparr>)"

text \<open>\<open>A + B\<close> and \<open>c * A\<close>: a sum is sparse when both summands are.\<close>

definition np_add :: "'a::semiring_1 matrix \<Rightarrow> 'a matrix \<Rightarrow> error + 'a matrix" where
  "np_add A B =
     (if shape A \<noteq> shape B then Inl ValueError
      else Inr \<lparr>shape = shape A,
                entries = map2 (map2 (\<lambda>a b. a + b)) (entries A) (entries B),
                scheme = (if issparse A \<and> issparse B
                          then (if scheme A = Some ''csc'' \<or> scheme A = Some ''bsr'' then scheme A
                                else Some ''csr'')
                          else None)\<rparr>)"

definition np_smul :: "'a::semiring_1 \<Rightarrow> 'a matrix \<Rightarrow> 'a matrix" where
  "np_smul c A = A\<lparr>entries := map (map (\<lambda>a. c * a)) (entries A)\<rparr>"

text \<open>
  \<open>getattr(sps, format + '_matrix')(M)\<close>, \<open>M.asformat(format)\<close>, \<open>M.toarray()\<close>: the
  entries stay, the storage changes; a name that is not a sparse scheme is an error.
\<close>

definition sps_matrix :: "string \<Rightarrow> 'a matrix \<Rightarrow> error + 'a matrix" where
  "sps_matrix format M =
     (if format \<in> set sparse_formats then Inr (M\<lparr>scheme := Some format\<rparr>) else Inl AttributeError)"

definition asformat :: "string \<Rightarrow> 'a matrix \<Rightarrow> error + 'a matrix" where
  "asformat format M =
     (if format \<in> set sparse_formats then Inr (M\<lparr>scheme := Some format\<rparr>) else Inl ValueError)"

definition toarray :: "'a matrix \<Rightarrow> 'a matrix" where
  "toarray M = M\<lparr>scheme := None\<rparr>"

text \<open>\<open>np.zeros((r, c))\<close> and \<open>np.eye(n)\<close>, as entries.\<close>

definition zeros :: "nat \<Rightarrow> nat \<Rightarrow> 'a::semiring_1 list list" where
  "zeros r c = replicate r (replicate c 0)"

definition eye :: "nat \<Rightarrow> 'a::semiring_1 list list" where
  "eye n = map (\<lambda>i. map (\<lambda>j. if i = j then 1 else 0) [0..<n]) [0..<n]"

text \<open>The first error of a list of results, or all the values.\<close>

fun collect :: "(error + 'b) list \<Rightarrow> error + 'b list" where
  "collect [] = Inr []"
| "collect (x # xs) =
     (case x of Inl e \<Rightarrow> Inl e
      | Inr y \<Rightarrow> (case collect xs of Inl e \<Rightarrow> Inl e | Inr ys \<Rightarrow> Inr (y # ys)))"

text \<open>
  \<open>np.asarray(np.bmat(blocks))\<close> joins the blocks of each row side by side (they must
  have the same number of rows) and the rows one below the other (same number of
  columns).  \<open>sps.bmat(blocks, format=format)\<close> wants the same number of rows along a
  row of blocks and the same number of columns along a column of blocks; without a
  format it returns a COO matrix.
\<close>

definition hstack :: "'a matrix list \<Rightarrow> error + 'a matrix" where
  "hstack Ms =
     (case Ms of [] \<Rightarrow> Inl ValueError
      | M # Ns \<Rightarrow>
          if \<not> list_all (\<lambda>N. fst (shape N) = fst (shape M)) Ns then Inl ValueError
          else Inr \<lparr>shape = (fst (shape M), sum_list (map (\<lambda>N. snd (shape N)) Ms)),
                    entries = map (\<lambda>i. concat (map (\<lambda>N. entries N ! i) Ms)) [0..<fst (shape M)],
                    scheme = None\<rparr>)"

definition vstack :: "'a matrix list \<Rightarrow> error + 'a matrix" where
  "vstack Ms =
     (case Ms of [] \<Rightarrow> Inl ValueError
      | M # Ns \<Rightarrow>
          if \<not> list_all (\<lambda>N. snd (shape N) = snd (shape M)) Ns then Inl ValueError
          else Inr \<lparr>shape = (sum_list (map (\<lambda>N. fst (shape N)) Ms), snd (shape M)),
                    entries = concat (map entries Ms),
                    scheme = None\<rparr>)"

definition np_bmat :: "'a matrix list list \<Rightarrow> error + 'a matrix" where
  "np_bmat blocks =
     (case collect (map hstack blocks) of Inl e \<Rightarrow> Inl e | Inr rs \<Rightarrow> vstack rs)"

definition sps_bmat :: "'a matrix list list \<Rightarrow> string option \<Rightarrow> error + 'a matrix" where
  "sps_bmat blocks format =
     (if \<not> list_all (\<lambda>row. list_all (\<lambda>j. snd (shape (row ! j)) = snd (shape (hd blocks ! j)))
                                    [0..<length row]) blocks
      then Inl ValueError
      else case np_bmat blocks of Inl e \<Rightarrow> Inl e
           | Inr M \<Rightarrow> (case format of None \<Rightarrow> Inr (M\<lparr>scheme := Some ''coo''\<rparr>)
                       | Some f \<Rightarrow> asformat f M))"

text \<open>
  \<open>scipy.linalg.solve(S, B)\<close> validates its arguments and raises \<open>ValueError\<close> for a
  sparse matrix; on arrays it returns an array, computed by LAPACK: the solver is a
  parameter of the model, a function on the entries.
  \<open>scipy.sparse.linalg.spsolve\<close> is a parameter as a whole.
\<close>

definition linalg_solve ::
  "('a list list \<Rightarrow> 'a list list \<Rightarrow> error + 'a list list) \<Rightarrow> 'a matrix \<Rightarrow> 'a matrix \<Rightarrow> error + 'a matrix" where
  "linalg_solve solve S B =
     (if issparse S \<or> issparse B then Inl ValueError
      else case solve (entries S) (entries B) of Inl e \<Rightarrow> Inl e
           | Inr X \<Rightarrow> Inr \<lparr>shape = shape B, entries = X, scheme = None\<rparr>)"

subsection \<open>Operators\<close>

text \<open>
  The operator classes are not among the sources; a node carries what the rules read
  from it: \<open>_matrix\<close> of a \<open>NumpyMatrixOperator\<close> (\<open>sparse\<close> is \<open>issparse\<close> of it), the
  rows of \<open>_blocks\<close>, \<open>operator\<close>, \<open>range_product\<close> and \<open>source_product\<close> of an
  \<open>AdjointOperator\<close>, \<open>components\<close> and \<open>source.dim\<close> of a \<open>ComponentProjection\<close>
  (\<open>range.dim\<close> is the number of components), \<open>second\<close> and \<open>first\<close> of a
  \<open>Concatenation\<close>, \<open>source.dim\<close> of an \<open>IdentityOperator\<close>, \<open>operators\<close> and
  \<open>evaluate_coefficients\<close> of a \<open>LincombOperator\<close>, \<open>_array.data\<close>, its \<open>dim\<close> and
  \<open>transposed\<close> of a \<open>VectorArrayOperator\<close>, \<open>range.dim\<close> and \<open>source.dim\<close> of a
  \<open>ZeroOperator\<close>.
\<close>

datatype ('a, 'm) operator =
    NumpyMatrixOperator "'a matrix"
  | BlockOperator "('a, 'm) operator list list"
  | AdjointOperator "('a, 'm) operator" "('a, 'm) operator option" "('a, 'm) operator option"
  | ComponentProjection "int list" nat
  | Concatenation "('a, 'm) operator" "('a, 'm) operator"
  | IdentityOperator nat
  | LincombOperator "('a, 'm) operator list" "'m \<Rightarrow> 'a list"
  | VectorArrayOperator "'a list list" nat bool
  | ZeroOperator nat nat

subsection \<open>The rules\<close>

text \<open>What each rule does with the matrices of the children.\<close>

definition action_NumpyMatrixOperator :: "'a matrix \<Rightarrow> string option \<Rightarrow> error + 'a matrix" where
  "action_NumpyMatrixOperator M format =
     (if format = None then Inr M
      else if format = Some ''dense'' then
        (if \<not> issparse M then Inr M else Inr (toarray M))
      else
        (if \<not> issparse M then sps_matrix (the format) M else asformat (the format) M))"

definition action_BlockOperator :: "'a matrix list list \<Rightarrow> string option \<Rightarrow> error + 'a matrix" where
  "action_BlockOperator mat_blocks format =
     (let is_dense = list_all (\<lambda>row. list_all (\<lambda>mat_ij. \<not> issparse mat_ij) row) mat_blocks
      in if (format = None \<and> is_dense) \<or> format = Some ''dense''
         then np_bmat mat_blocks
         else sps_bmat mat_blocks format)"

text \<open>
  The three steps of the rule for an \<open>AdjointOperator\<close>: the product with the range
  product, the solve with the source product, the final conversion.
\<close>

definition adjoint_range :: "string option \<Rightarrow> 'a::semiring_1 matrix \<Rightarrow> 'a matrix \<Rightarrow> error + 'a matrix" where
  "adjoint_range format res range_product =
     (if format = None \<and> \<not> issparse res \<and> issparse range_product
      then (case np_dot (np_T range_product) (np_T res) of Inl e \<Rightarrow> Inl e | Inr M \<Rightarrow> Inr (np_T M))
      else np_dot res range_product)"

definition adjoint_source ::
  "('a list list \<Rightarrow> 'a list list \<Rightarrow> error + 'a list list) \<Rightarrow>
   ('a matrix \<Rightarrow> 'a matrix \<Rightarrow> error + 'a matrix) \<Rightarrow> 'a matrix \<Rightarrow> 'a matrix \<Rightarrow> error + 'a matrix" where
  "adjoint_source solve spsolve source_product res =
     (if \<not> issparse source_product then linalg_solve solve source_product res
      else spsolve source_product res)"

definition adjoint_format :: "string option \<Rightarrow> 'a matrix \<Rightarrow> error + 'a matrix" where
  "adjoint_format format res =
     (if format \<noteq> None \<and> format \<noteq> Some ''dense'' then sps_matrix (the format) res else Inr res)"

text \<open>
  \<open>ComponentProjection\<close>: for \<open>'dense'\<close> the ones are written into an array of zeros (a
  negative index counts from the end, one out of range raises \<open>IndexError\<close>);
  otherwise \<open>coo_matrix\<close> builds the same pattern and rejects an index that is
  negative or too large.
\<close>

fun set_ones :: "'a::semiring_1 list list \<Rightarrow> nat \<Rightarrow> nat \<Rightarrow> int list \<Rightarrow> error + 'a list list" where
  "set_ones res c i [] = Inr res"
| "set_ones res c i (j # js) =
     (case row_pos c j of Inl e \<Rightarrow> Inl e
      | Inr p \<Rightarrow> set_ones (res[i := (res ! i)[p := 1]]) c (Suc i) js)"

definition action_ComponentProjection ::
  "int list \<Rightarrow> nat \<Rightarrow> string option \<Rightarrow> error + 'a::semiring_1 matrix" where
  "action_ComponentProjection components source_dim format =
     (let range_dim = length components in
      if format = Some ''dense'' then
        (case set_ones (zeros range_dim source_dim) source_dim 0 components of
           Inl e \<Rightarrow> Inl e
         | Inr res \<Rightarrow> Inr \<lparr>shape = (range_dim, source_dim), entries = res, scheme = None\<rparr>)
      else if \<not> list_all (\<lambda>j. 0 \<le> j \<and> j < int source_dim) components then Inl ValueError
      else
        asformat (case format of None \<Rightarrow> ''csc'' | Some f \<Rightarrow> f)
          \<lparr>shape = (range_dim, source_dim),
           entries = map (\<lambda>j. map (\<lambda>l. if int l = j then 1 else 0) [0..<source_dim]) components,
           scheme = Some ''coo''\<rparr>)"

definition action_Concatenation ::
  "string option \<Rightarrow> 'a::semiring_1 matrix \<Rightarrow> 'a matrix \<Rightarrow> error + 'a matrix" where
  "action_Concatenation format first second =
     (if format = None \<and> \<not> issparse second \<and> issparse first
      then (case np_dot (np_T first) (np_T second) of Inl e \<Rightarrow> Inl e | Inr M \<Rightarrow> Inr (np_T M))
      else np_dot second first)"

definition action_IdentityOperator :: "nat \<Rightarrow> string option \<Rightarrow> error + 'a::semiring_1 matrix" where
  "action_IdentityOperator source_dim format =
     (if format = Some ''dense''
      then Inr \<lparr>shape = (source_dim, source_dim), entries = eye source_dim, scheme = None\<rparr>
      else asformat (case format of None \<Rightarrow> ''csc'' | Some f \<Rightarrow> f)
             \<lparr>shape = (source_dim, source_dim), entries = eye source_dim, scheme = Some ''dia''\<rparr>)"

text \<open>
  \<open>LincombOperator\<close>: the first weighted term, then the others added from left to right,
  each converted when its turn comes; \<open>op_coefficients[i]\<close> and \<open>op.operators[0]\<close> raise
  \<open>IndexError\<close> when there is no such element.
\<close>

fun lincomb_rest ::
  "'a::semiring_1 matrix \<Rightarrow> 'a list \<Rightarrow> (error + 'a matrix) list \<Rightarrow> error + 'a matrix" where
  "lincomb_rest res cs [] = Inr res"
| "lincomb_rest res [] (x # xs) = Inl IndexError"
| "lincomb_rest res (c # cs) (x # xs) =
     (case x of Inl e \<Rightarrow> Inl e
      | Inr M \<Rightarrow>
          (case np_add res (np_smul c M) of Inl e \<Rightarrow> Inl e
           | Inr res' \<Rightarrow> lincomb_rest res' cs xs))"

definition action_VectorArrayOperator ::
  "'a list list \<Rightarrow> nat \<Rightarrow> bool \<Rightarrow> string option \<Rightarrow> error + 'a matrix" where
  "action_VectorArrayOperator rs d transposed format =
     (let data = \<lparr>shape = (length rs, d), entries = rs, scheme = None\<rparr>;
          res = (if transposed then data else np_T data)
      in if format \<noteq> None \<and> format \<noteq> Some ''dense'' then sps_matrix (the format) res else Inr res)"

definition action_ZeroOperator :: "nat \<Rightarrow> nat \<Rightarrow> string option \<Rightarrow> error + 'a::semiring_1 matrix" where
  "action_ZeroOperator range_dim source_dim format =
     (if format = None then
        Inr \<lparr>shape = (range_dim, source_dim), entries = zeros range_dim source_dim,
             scheme = Some ''csc''\<rparr>
      else if format = Some ''dense'' then
        Inr \<lparr>shape = (range_dim, source_dim), entries = zeros range_dim source_dim, scheme = None\<rparr>
      else
        sps_matrix (the format)
          \<lparr>shape = (range_dim, source_dim), entries = zeros range_dim source_dim, scheme = None\<rparr>)"

text \<open>
  \<open>ToMatrixRules.apply\<close>: the rule of the operator's class, which converts the children
  with the same format, in the order of the source, and stops at the first error.
\<close>

fun ToMatrixRules_apply ::
  "('a::semiring_1 list list \<Rightarrow> 'a list list \<Rightarrow> error + 'a list list) \<Rightarrow>
   ('a matrix \<Rightarrow> 'a matrix \<Rightarrow> error + 'a matrix) \<Rightarrow>
   ('a, 'm) operator \<Rightarrow> string option \<Rightarrow> 'm \<Rightarrow> error + 'a matrix" where
  "ToMatrixRules_apply solve spsolve (NumpyMatrixOperator M) format mu =
     action_NumpyMatrixOperator M format"
| "ToMatrixRules_apply solve spsolve (BlockOperator blocks) format mu =
     (case collect (map (\<lambda>row. collect (map (\<lambda>b. ToMatrixRules_apply solve spsolve b format mu) row))
                        blocks) of
        Inl e \<Rightarrow> Inl e
      | Inr mat_blocks \<Rightarrow> action_BlockOperator mat_blocks format)"
| "ToMatrixRules_apply solve spsolve (AdjointOperator operator range_product source_product) format mu =
     (case ToMatrixRules_apply solve spsolve operator format mu of
        Inl e \<Rightarrow> Inl e
      | Inr A \<Rightarrow>
          (case (case range_product of
                   None \<Rightarrow> Inr (np_T A)
                 | Some rp \<Rightarrow>
                     (case ToMatrixRules_apply solve spsolve rp format mu of
                        Inl e \<Rightarrow> Inl e
                      | Inr R \<Rightarrow> adjoint_range format (np_T A) R)) of
             Inl e \<Rightarrow> Inl e
           | Inr res \<Rightarrow>
               (case (case source_product of
                        None \<Rightarrow> Inr res
                      | Some sp \<Rightarrow>
                          (case ToMatrixRules_apply solve spsolve sp format mu of
                             Inl e \<Rightarrow> Inl e
                           | Inr S \<Rightarrow> adjoint_source solve spsolve S res)) of
                  Inl e \<Rightarrow> Inl e
                | Inr res' \<Rightarrow> adjoint_format format res')))"
| "ToMatrixRules_apply solve spsolve (ComponentProjection components source_dim) format mu =
     action_ComponentProjection components source_dim format"
| "ToMatrixRules_apply solve spsolve (Concatenation second first) format mu =
     (case ToMatrixRules_apply solve spsolve first format mu of
        Inl e \<Rightarrow> Inl e
      | Inr B \<Rightarrow>
          (case ToMatrixRules_apply solve spsolve second format mu of
             Inl e \<Rightarrow> Inl e
           | Inr A \<Rightarrow> action_Concatenation format B A))"
| "ToMatrixRules_apply solve spsolve (IdentityOperator source_dim) format mu =
     action_IdentityOperator source_dim format"
| "ToMatrixRules_apply solve spsolve (LincombOperator operators evaluate_coefficients) format mu =
     (let op_coefficients = evaluate_coefficients mu in
      case op_coefficients of
        [] \<Rightarrow> Inl IndexError
      | c # cs \<Rightarrow>
          (case operators of
             [] \<Rightarrow> Inl IndexError
           | op0 # ops \<Rightarrow>
               (case ToMatrixRules_apply solve spsolve op0 format mu of
                  Inl e \<Rightarrow> Inl e
                | Inr M \<Rightarrow>
                    lincomb_rest (np_smul c M) cs
                      (map (\<lambda>b. ToMatrixRules_apply solve spsolve b format mu) ops))))"
| "ToMatrixRules_apply solve spsolve (VectorArrayOperator rs d transposed) format mu =
     action_VectorArrayOperator rs d transposed format"
| "ToMatrixRules_apply solve spsolve (ZeroOperator range_dim source_dim) format mu =
     action_ZeroOperator range_dim source_dim format"

text \<open>
  \<open>to_matrix\<close>: the assertion on the format, the assembly (an operation of the operator,
  here a parameter, which may raise), the rules.
\<close>

definition to_matrix ::
  "(('a, 'm) operator \<Rightarrow> 'm \<Rightarrow> error + ('a, 'm) operator) \<Rightarrow>
   ('a::semiring_1 list list \<Rightarrow> 'a list list \<Rightarrow> error + 'a list list) \<Rightarrow>
   ('a matrix \<Rightarrow> 'a matrix \<Rightarrow> error + 'a matrix) \<Rightarrow>
   ('a, 'm) operator \<Rightarrow> string option \<Rightarrow> 'm \<Rightarrow> error + 'a matrix" where
  "to_matrix assemble solve spsolve op format mu =
     (if \<not> (format = None \<or> the format \<in> set (''dense'' # sparse_formats)) then Inl AssertionError
      else case assemble op mu of
             Inl e \<Rightarrow> Inl e
           | Inr op' \<Rightarrow> ToMatrixRules_apply solve spsolve op' format mu)"

text \<open>Assembling an operator without parametric parts returns the operator.\<close>

definition assembled :: "('a, 'm) operator \<Rightarrow> 'm \<Rightarrow> error + ('a, 'm) operator" where
  "assembled op mu = Inr op"

text \<open>The product of two matrices, by entries.\<close>

definition product :: "'a::semiring_1 matrix \<Rightarrow> 'a matrix \<Rightarrow> 'a list list" where
  "product A B =
     map (\<lambda>i. map (\<lambda>j. sum_list (map (\<lambda>l. entries A ! i ! l * entries B ! l ! j) [0..<snd (shape A)]))
                    [0..<snd (shape B)])
         [0..<fst (shape A)]"

text \<open>
  Solvers for operator trees without a source product, which call none: they raise.
  Two one by one matrices and a pair of a row and a column, for the examples.
\<close>

definition no_solve :: "int list list \<Rightarrow> int list list \<Rightarrow> error + int list list" where
  "no_solve S B = Inl LinAlgError"

definition no_spsolve :: "int matrix \<Rightarrow> int matrix \<Rightarrow> error + int matrix" where
  "no_spsolve S B = Inl LinAlgError"

definition dense_1x1 :: "int \<Rightarrow> (int, unit) operator" where
  "dense_1x1 a = NumpyMatrixOperator \<lparr>shape = (1, 1), entries = [[a]], scheme = None\<rparr>"

definition csc_1x1 :: "int \<Rightarrow> (int, unit) operator" where
  "csc_1x1 a = NumpyMatrixOperator \<lparr>shape = (1, 1), entries = [[a]], scheme = Some ''csc''\<rparr>"

definition dense_row :: "(int, unit) operator" where
  "dense_row = NumpyMatrixOperator \<lparr>shape = (1, 2), entries = [[1, 2]], scheme = None\<rparr>"

definition csc_column :: "(int, unit) operator" where
  "csc_column = NumpyMatrixOperator \<lparr>shape = (2, 1), entries = [[3], [4]], scheme = Some ''csc''\<rparr>"

section \<open>Properties of the vector array\<close>

subsection \<open>The store after each primitive\<close>


lemma set_len_simps:
  "objects (set_len h v n) = (objects h)[v := (objects h ! v)\<lparr>len := n\<rparr>]"
  "counters (set_len h v n) = counters h"
  "arrays (set_len h v n) = arrays h"
  by (simp_all add: set_len_def)

lemma assign_array_simps:
  "objects (assign_array h v a) = (objects h)[v := (objects h ! v)\<lparr>array := length (arrays h)\<rparr>]"
  "counters (assign_array h v a) = counters h"
  "arrays (assign_array h v a) = arrays h @ [a]"
  by (simp_all add: assign_array_def new_array_def set_array_def)

lemma astype_simps:
  "objects (astype h v d) = (objects h)[v := (objects h ! v)\<lparr>array := length (arrays h)\<rparr>]"
  "counters (astype h v d) = counters h"
  "arrays (astype h v d) = arrays h @ [(the_array h v)\<lparr>dtype := d\<rparr>]"
  by (simp_all add: astype_def assign_array_simps)

lemma deep_copy_simps:
  "v < length (objects h) \<Longrightarrow> objects (deep_copy h v) =
     (objects h)[v := (objects h ! v)\<lparr>array := length (arrays h), refcount := length (counters h)\<rparr>]"
  "arrays (deep_copy h v) = arrays h @ [the_array h v]"
  "v < length (objects h) \<Longrightarrow> counters (deep_copy h v) =
     (counters h)[refcount (objects h ! v) := the_count h v - 1] @ [1]"
  by (simp_all add: deep_copy_def Let_def new_counter_def set_refcount_def assign_array_simps the_count_def)

lemma wf_object:
  "well_formed h \<Longrightarrow> g < length (objects h) \<Longrightarrow>
     array (objects h ! g) < length (arrays h) \<and> refcount (objects h ! g) < length (counters h)
     \<and> len (objects h ! g) \<le> length (rows (the_array h g)) \<and> 1 \<le> the_count h g"
  by (simp add: well_formed_def list_all_length the_array_def the_count_def)

lemma frame_refl: "frame h h V"
  by (simp add: frame_def)


lemma frame_deep_copy:
  assumes "frame h h' V" "w < length (objects h)"
  shows "frame h (deep_copy h' w) (insert w V)"
  using assms by (auto simp: frame_def deep_copy_simps nth_append nth_list_update)






lemma owns_deep_copy:
  assumes "w < length (objects h')" "length (arrays h) \<le> length (arrays h')"
     "length (counters h) \<le> length (counters h')"
  shows "owns h (deep_copy h' w) w"
  using assms by (simp add: owns_def deep_copy_simps the_count_def nth_append)







lemma priv_deep_copy:
  "v < length (objects h) \<Longrightarrow> priv h (deep_copy h v) v {v}"
  using frame_deep_copy [OF frame_refl, of v h "{}"] owns_deep_copy [of v h h]
  by (simp add: priv_def)










lemma remove_None:
  "remove h w None = Inr (set_len (assign_array (unshare h w) w
      \<lparr>rows = [], ncols = dim (unshare h w) w, dtype = float64\<rparr>) w 0)"
  by (simp add: remove_def check_ind_def Let_def)


lemma priv_cow_split:
  assumes wf: "well_formed h" and p: "priv h h' v (insert v (set ws))"
    and d: "\<forall>w\<in>set ws. w \<noteq> v \<longrightarrow> array (objects h' ! w) \<noteq> array (objects h' ! v)"
  shows "cow_split h v ws h'"
proof -
  have f: "frame h h' (insert v (set ws))" and ow: "owns h h' v"
    using p by (simp_all add: priv_def)
  have same: "objects h' ! g = objects h ! g \<and> arrays h' ! array (objects h ! g) = arrays h ! array (objects h ! g)
        \<and> array (objects h ! g) < length (arrays h)"
    if "g < length (objects h)" "g \<noteq> v" "g \<notin> set ws" for g
    using f that wf_object [OF wf that(1)] by (simp add: frame_def)
  have "array (objects h' ! g) \<noteq> array (objects h' ! v)" if "g < length (objects h)" "g \<noteq> v" for g
  proof (cases "g \<in> set ws")
    case True
    then show ?thesis using d that by simp
  next
    case False
    then show ?thesis using same [OF that False] ow by (simp add: owns_def)
  qed
  moreover have "data h' g = data h g" if "g < length (objects h)" "g \<noteq> v" "g \<notin> set ws" for g
    using same [OF that] by (simp add: data_def the_array_def)
  ultimately show ?thesis
    using f ow by (simp add: cow_split_def frame_def owns_def)
qed




subsection \<open>Well-formedness is kept\<close>

lemma rows_pos_length: "rows_pos n js = Inr ps \<Longrightarrow> length ps = length js"
  by (induction js arbitrary: ps) (auto split: sum.splits)

lemma broadcast_replicate:
  "broadcast n (replicate n b) = replicate n b"
  by (simp add: broadcast_def)

lemma broadcast_single: "broadcast n [b] = replicate n b"
  by (simp add: broadcast_def)

lemma map2_replicate:
  "length xs = m \<Longrightarrow> map2 f xs (replicate m c) = map (\<lambda>x. f x c) xs"
  by (induction xs arbitrary: m) auto

lemma rows_op_replicate:
  "rows_op f a js (replicate (length js) b) = rows_op f a js [b]"
proof (cases "rows_pos (length a) js")
  case (Inl e)
  then show ?thesis by (simp add: rows_op_def)
next
  case (Inr ps)
  then show ?thesis
    using rows_pos_length [OF Inr]
    by (simp add: rows_op_def broadcast_single) (metis broadcast_replicate)
qed

text \<open>A single row and its copies give the same update of the selected rows.\<close>

lemma update_selected_replicate:
  assumes "len (objects h ! v) \<le> length (rows (the_array h v))"
    and "m = (case ind of None \<Rightarrow> len (objects h ! v) | Some (Number i) \<Rightarrow> 1
               | Some (List js) \<Rightarrow> length js)"
  shows "update_selected f h v ind (replicate m b) = update_selected f h v ind [b]"
proof (cases ind)
  case None
  then show ?thesis
    using assms by (simp add: update_selected_def slice_op_def broadcast_replicate broadcast_single min_def)
next
  case (Some i)
  then show ?thesis
    using assms
    by (cases i) (simp_all add: update_selected_def Let_def rows_op_replicate)
qed

lemma times_alpha_uniform:
  fixes B :: "'a::ring_1 list list"
  assumes "all_eq alpha c" and "check_alpha alpha m" and "length B = m \<or> length B = 1"
  shows "times_alpha B alpha = map (map (\<lambda>b. b * c)) B
         \<or> (\<exists>r. B = [r] \<and> times_alpha B alpha = replicate m (map (\<lambda>b. b * c) r))"
proof (cases alpha)
  case (Num d a)
  then show ?thesis using assms by simp
next
  case (NdArray d as)
  then have as: "as = replicate m c"
    using assms(1,2) by (auto simp: list_all_iff intro: replicate_eqI)
  show ?thesis
  proof (cases "length B = 1")
    case True
    then obtain r where B: "B = [r]" by (cases B) auto
    have "times_alpha B alpha = map2 (\<lambda>r a. map (\<lambda>b. b * a) r) (replicate m r) (replicate m c)"
      using B NdArray as by (simp add: broadcast_single broadcast_replicate)
    also have "\<dots> = replicate m (map (\<lambda>b. b * c) r)"
      by (simp add: map2_replicate)
    finally show ?thesis using B by blast
  next
    case False
    then have l: "length B = m" using assms(3) by simp
    have "times_alpha B alpha = map2 (\<lambda>r a. map (\<lambda>b. b * a) r) B (replicate m c)"
      using NdArray as False l by (simp add: broadcast_def)
    also have "\<dots> = map (map (\<lambda>b. b * c)) B"
      using l by (simp add: map2_replicate)
    finally show ?thesis by simp
  qed
qed

text \<open>Adding the negated operand is subtracting the operand.\<close>

lemma map2_map_right: "map2 f xs (map g ys) = map2 (\<lambda>x y. f x (g y)) xs ys"
  by (induction xs ys rule: list_induct2') auto

lemma broadcast_map: "broadcast n (map g V) = map g (broadcast n V)"
  by (cases V) (simp_all add: broadcast_def)

lemma rows_map2_map:
  "map2 (map2 f) rs (broadcast n (map (map g) V)) = map2 (map2 (\<lambda>x y. f x (g y))) rs (broadcast n V)"
  by (simp add: broadcast_map map2_map_right)

lemma rows_op_map:
  "rows_op f a js (map (map g) V) = rows_op (\<lambda>x y. f x (g y)) a js V"
  by (cases "rows_pos (length a) js") (simp_all add: rows_op_def rows_map2_map)

lemma row_op_map:
  "row_op f a i (concat (map (map g) V)) = row_op (\<lambda>x y. f x (g y)) a i (concat V)"
  by (cases "row_pos (length a) i")
     (simp_all add: row_op_def broadcast_map map2_map_right flip: map_concat)

lemma update_selected_map:
  "update_selected f h v ind (map (map g) V) = update_selected (\<lambda>x y. f x (g y)) h v ind V"
proof (cases ind)
  case None
  then show ?thesis by (simp add: update_selected_def slice_op_def rows_map2_map)
next
  case (Some i)
  then show ?thesis
    by (cases i) (simp_all add: update_selected_def Let_def rows_op_map row_op_map)
qed

lemma wf_array:
  "well_formed h \<Longrightarrow> p < length (arrays h) \<Longrightarrow> r \<in> set (rows (arrays h ! p)) \<Longrightarrow> length r = ncols (arrays h ! p)"
  by (simp add: well_formed_def list_all_length) (metis in_set_conv_nth)

lemma wfI:
  assumes "\<And>g. g < length (objects h) \<Longrightarrow>
             array (objects h ! g) < length (arrays h) \<and> refcount (objects h ! g) < length (counters h)
             \<and> len (objects h ! g) \<le> length (rows (the_array h g)) \<and> 1 \<le> the_count h g"
    and "\<And>p r. p < length (arrays h) \<Longrightarrow> r \<in> set (rows (arrays h ! p)) \<Longrightarrow> length r = ncols (arrays h ! p)"
  shows "well_formed h"
  using assms by (simp add: well_formed_def list_all_length the_array_def the_count_def)

lemma wf_assign_array:
  assumes "well_formed h" "v < length (objects h)" "\<forall>r\<in>set (rows a). length r = ncols a"
    "len (objects h ! v) \<le> length (rows a)"
  shows "well_formed (assign_array h v a)"
proof (rule wfI)
  fix g assume "g < length (objects (assign_array h v a))"
  then have g: "g < length (objects h)" by (simp add: assign_array_simps)
  show "array (objects (assign_array h v a) ! g) < length (arrays (assign_array h v a)) \<and>
         refcount (objects (assign_array h v a) ! g) < length (counters (assign_array h v a)) \<and>
         len (objects (assign_array h v a) ! g) \<le> length (rows (the_array (assign_array h v a) g)) \<and>
         1 \<le> the_count (assign_array h v a) g"
    using wf_object [OF assms(1) g] assms(2,4) g
    by (cases "g = v") (simp_all add: assign_array_simps the_array_def the_count_def nth_append)
next
  fix p r assume "p < length (arrays (assign_array h v a))" "r \<in> set (rows (arrays (assign_array h v a) ! p))"
  then show "length r = ncols (arrays (assign_array h v a) ! p)"
    using wf_array [OF assms(1), of p r] assms(3)
    by (cases "p < length (arrays h)") (simp_all add: assign_array_simps nth_append less_Suc_eq)
qed


lemma wf_deep_copy:
  assumes "well_formed h" "v < length (objects h)" "1 < the_count h v"
  shows "well_formed (deep_copy h v)"
proof (rule wfI)
  fix g assume "g < length (objects (deep_copy h v))"
  then have g: "g < length (objects h)" using assms(2) by (simp add: deep_copy_simps)
  show "array (objects (deep_copy h v) ! g) < length (arrays (deep_copy h v)) \<and>
         refcount (objects (deep_copy h v) ! g) < length (counters (deep_copy h v)) \<and>
         len (objects (deep_copy h v) ! g) \<le> length (rows (the_array (deep_copy h v) g)) \<and>
         1 \<le> the_count (deep_copy h v) g"
    using wf_object [OF assms(1) g] wf_object [OF assms(1,2)] assms(2,3) g
    by (cases "g = v")
       (auto simp add: deep_copy_simps the_array_def the_count_def nth_append nth_list_update)
next
  fix p r assume "p < length (arrays (deep_copy h v))" "r \<in> set (rows (arrays (deep_copy h v) ! p))"
  then show "length r = ncols (arrays (deep_copy h v) ! p)"
    using wf_array [OF assms(1), of p r] wf_array [OF assms(1), of "array (objects h ! v)" r]
      wf_object [OF assms(1,2)]
    by (cases "p < length (arrays h)") (simp_all add: deep_copy_simps nth_append less_Suc_eq the_array_def)
qed

lemma wf_unshare: "well_formed h \<Longrightarrow> v < length (objects h) \<Longrightarrow> well_formed (unshare h v)"
  by (simp add: unshare_def wf_deep_copy)

lemma deep_copy_data:
  assumes "well_formed h" "v < length (objects h)" "g < length (objects h)"
  shows "data (deep_copy h v) g = data h g"
  using assms wf_object [OF assms(1,3)] wf_object [OF assms(1,2)]
  by (cases "g = v") (simp_all add: data_def the_array_def deep_copy_simps nth_append)

lemma deep_copy_object:
  assumes "well_formed h" "v < length (objects h)" "g < length (objects h)"
  shows "len (objects (deep_copy h v) ! g) = len (objects h ! g)"
    "the_array (deep_copy h v) g = the_array h g"
    "length (objects (deep_copy h v)) = length (objects h)"
  using assms wf_object [OF assms(1,3)] wf_object [OF assms(1,2)]
  by (cases "g = v"; simp add: data_def the_array_def deep_copy_simps nth_append)+

lemma unshare_object:
  assumes "well_formed h" "v < length (objects h)" "g < length (objects h)"
  shows "len (objects (unshare h v) ! g) = len (objects h ! g)"
    "the_array (unshare h v) g = the_array h g"
    "length (objects (unshare h v)) = length (objects h)"
    "data (unshare h v) g = data h g"
  using deep_copy_object [OF assms] deep_copy_data [OF assms] by (simp_all add: unshare_def)

lemma astype_object:
  assumes "well_formed h" "v < length (objects h)" "g < length (objects h)"
  shows "len (objects (astype h v d) ! g) = len (objects h ! g)"
    "rows (the_array (astype h v d) g) = rows (the_array h g)"
    "ncols (the_array (astype h v d) g) = ncols (the_array h g)"
    "length (objects (astype h v d)) = length (objects h)"
    "data (astype h v d) g = data h g"
  using assms wf_object [OF assms(1,3)] wf_object [OF assms(1,2)]
  by (cases "g = v"; simp add: data_def the_array_def astype_simps nth_append)+

lemma axpy_add_mul:
  fixes h :: "'a::ring_1 heap"
  assumes "len (objects h ! v) \<le> length (rows (the_array h v))"
    and "check_alpha alpha (selected h v ind)"
    and "length B = selected h v ind \<or> length B = 1"
  shows "all_eq alpha 1 \<Longrightarrow> axpy_mul h v ind B alpha = axpy_add h v ind B"
    and "all_eq alpha (- 1) \<Longrightarrow> axpy_mul h v ind B alpha = axpy_sub h v ind B"
proof -
  have *: "axpy_mul h v ind B alpha = update_selected (\<lambda>x y. x + y * c) h v ind B"
    if "all_eq alpha c" for c
  proof -
    from times_alpha_uniform [OF that assms(2,3)]
    show ?thesis
    proof
      assume "times_alpha B alpha = map (map (\<lambda>b. b * c)) B"
      then show ?thesis by (simp add: axpy_mul_def update_selected_map)
    next
      assume "\<exists>r. B = [r] \<and> times_alpha B alpha = replicate (selected h v ind) (map (\<lambda>b. b * c) r)"
      then obtain r where B: "B = [r]"
        and t: "times_alpha B alpha = replicate (selected h v ind) (map (\<lambda>b. b * c) r)" by blast
      have "axpy_mul h v ind B alpha = update_selected (\<lambda>x y. x + y) h v ind [map (\<lambda>b. b * c) r]"
        unfolding axpy_mul_def t
        by (rule update_selected_replicate [OF assms(1)]) (simp add: selected_def)
      also have "\<dots> = update_selected (\<lambda>x y. x + y * c) h v ind B"
        using update_selected_map [of "\<lambda>x y. x + y" h v ind "\<lambda>b. b * c" B] B by simp
      finally show ?thesis .
    qed
  qed
  show "all_eq alpha 1 \<Longrightarrow> axpy_mul h v ind B alpha = axpy_add h v ind B"
    using * [of 1] by (simp add: axpy_add_def)
  show "all_eq alpha (- 1) \<Longrightarrow> axpy_mul h v ind B alpha = axpy_sub h v ind B"
    using * [of "- 1"] by (simp add: axpy_sub_def)
qed

lemma check_ind_unique_empty:
  "check_ind_unique 0 (Some (List js)) \<Longrightarrow> js = []"
  by (cases js) (auto simp: check_ind_unique_def)

subsection \<open>append, step by step\<close>

lemma wf_set_len:
  assumes "well_formed h" "v < length (objects h)" "n \<le> length (rows (the_array h v))"
  shows "well_formed (set_len h v n)"
proof (rule wfI)
  fix g assume "g < length (objects (set_len h v n))"
  then have g: "g < length (objects h)" by (simp add: set_len_simps)
  show "array (objects (set_len h v n) ! g) < length (arrays (set_len h v n)) \<and>
         refcount (objects (set_len h v n) ! g) < length (counters (set_len h v n)) \<and>
         len (objects (set_len h v n) ! g) \<le> length (rows (the_array (set_len h v n) g)) \<and>
         1 \<le> the_count (set_len h v n) g"
    using wf_object [OF assms(1) g] assms(2,3) g
    by (cases "g = v") (simp_all add: set_len_simps the_array_def the_count_def)
next
  fix p r assume "p < length (arrays (set_len h v n))" "r \<in> set (rows (arrays (set_len h v n) ! p))"
  then show "length r = ncols (arrays (set_len h v n) ! p)"
    using wf_array [OF assms(1), of p r] by (simp add: set_len_simps)
qed





lemma unshare_dim:
  assumes "well_formed h" "v < length (objects h)" "g < length (objects h)"
  shows "dim (unshare h v) g = dim h g"
  using unshare_object(2) [OF assms] by (simp add: dim_def)


lemma set_len_assign_array:
  "set_len (assign_array h w a) w n = assign_array (set_len h w n) w a"
proof (cases "w < length (objects h)")
  case True
  obtain x y z where "objects h ! w = \<lparr>array = x, len = y, refcount = z\<rparr>"
    by (cases "objects h ! w") simp
  then show ?thesis
    using True by (simp add: set_len_def assign_array_def new_array_def set_array_def)
next
  case False
  then show ?thesis
    by (simp add: set_len_def assign_array_def new_array_def set_array_def list_update_beyond)
qed

lemma remove_None_facts:
  assumes wf: "well_formed h" and w: "w < length (objects h)"
  shows "\<exists>h'. remove h w None = Inr h' \<and> well_formed h' \<and> len (objects h' ! w) = 0 \<and> data h' w = []
           \<and> dim h' w = dim h w \<and> length (objects h') = length (objects h)
           \<and> (\<forall>g<length (objects h). g \<noteq> w \<longrightarrow>
                 data h' g = data h g \<and> len (objects h' ! g) = len (objects h ! g)
                 \<and> dim h' g = dim h g)"
proof -
  let ?h1 = "unshare h w"
  let ?z = "\<lparr>rows = [], ncols = dim ?h1 w, dtype = float64\<rparr> :: 'a ndarray"
  let ?h2 = "assign_array ?h1 w ?z"
  let ?h' = "set_len ?h2 w 0"
  have w1: "well_formed ?h1" and l1: "length (objects ?h1) = length (objects h)"
    using wf w by (simp_all add: wf_unshare unshare_object)
  have ww: "w < length (objects ?h1)" using w l1 by simp
  have e: "remove h w None = Inr ?h'" by (rule remove_None)
  have a1: "\<forall>g<length (objects h). array (objects ?h1 ! g) < length (arrays ?h1)"
    using wf_object [OF w1] l1 by simp
  have s0: "well_formed (set_len ?h1 w 0)" using w1 ww by (intro wf_set_len) simp_all
  have "?h' = assign_array (set_len ?h1 w 0) w ?z"
    by (rule set_len_assign_array)
  moreover have "well_formed (assign_array (set_len ?h1 w 0) w ?z)"
    using s0 ww by (intro wf_assign_array) (simp_all add: set_len_simps)
  ultimately have "well_formed ?h'" by simp
  moreover have "len (objects ?h' ! w) = 0" "data ?h' w = []" "length (objects ?h') = length (objects h)"
    using ww l1 by (simp_all add: data_def set_len_simps assign_array_simps)
  moreover have "dim ?h' w = dim h w"
    using ww unshare_dim [OF wf w w]
    by (simp add: dim_def the_array_def set_len_simps assign_array_simps)
  moreover have "data ?h' g = data h g \<and> len (objects ?h' ! g) = len (objects h ! g)
                 \<and> dim ?h' g = dim h g" if "g < length (objects h)" "g \<noteq> w" for g
    using that a1 unshare_object(1,4) [OF wf w that(1)] unshare_dim [OF wf w that(1)]
    by (simp add: data_def dim_def the_array_def set_len_simps assign_array_simps nth_append)
  ultimately show ?thesis using e by blast
qed

subsection \<open>The claims on copy-on-write and axpy\<close>



text \<open>
  C10.  On the fast path of \<open>axpy\<close> for a uniformly zero \<open>alpha\<close>, an array whose
  counter exceeds one is split before the early return: the call returns the store
  after \<open>_deep_copy\<close>, in which the object holds a new buffer that no other object refers
  to, with a new counter of value one, while the counter it shared is decreased; the new
  buffer is a copy of the old one, no array of the store is changed and the logical
  contents of every object, this one included, are what they were.
\<close>

theorem axpy_zero_splits:
  assumes "well_formed h" and "v < length (objects h)" and "1 < the_count h v"
    and "check_ind_unique (len (objects h ! v)) ind" and "dim h v = dim h x"
    and "len_ind (len (objects h ! v)) ind = len (objects h ! x) \<or> len (objects h ! x) = 1"
    and "check_alpha alpha (len_ind (len (objects h ! v)) ind)"
    and "all_eq alpha 0"
  shows "\<exists>h'. axpy quirk h v alpha x ind = Inr h' \<and> cow_split h v [] h'
           \<and> (\<forall>g<length (objects h). data h' g = data h g) \<and> the_array h' v = the_array h v
           \<and> objects h' = (objects h)[v := (objects h ! v)\<lparr>array := length (arrays h),
                                                          refcount := length (counters h)\<rparr>]
           \<and> arrays h' = arrays h @ [the_array h v]
           \<and> counters h' = (counters h)[refcount (objects h ! v) := the_count h v - 1] @ [1]"
proof -
  let ?h' = "deep_copy h v"
  have e: "axpy quirk h v alpha x ind = Inr ?h'"
    using assms by (simp add: axpy_def Let_def unshare_def)
  have "cow_split h v [] ?h'"
    using priv_cow_split [OF assms(1), of ?h' v "[]"] priv_deep_copy [OF assms(2)] by simp
  moreover have "the_array ?h' v = the_array h v"
    using assms(2) by (simp add: the_array_def deep_copy_simps)
  ultimately show ?thesis
    using e deep_copy_data [OF assms(1,2)] assms(2) by (simp add: deep_copy_simps)
qed

theorem axpy_zero_splits_witness:
  "well_formed shared_store \<and> 0 < length (objects shared_store) \<and> 1 < the_count shared_store 0
   \<and> check_ind_unique (len (objects shared_store ! 0)) None
   \<and> dim shared_store 0 = dim shared_store 1
   \<and> (len_ind (len (objects shared_store ! 0)) None = len (objects shared_store ! 1)
        \<or> len (objects shared_store ! 1) = 1)
   \<and> check_alpha (Num float64 (0::int)) (len_ind (len (objects shared_store ! 0)) None)
   \<and> all_eq (Num float64 (0::int)) 0
   \<and> (\<exists>h'. axpy False shared_store 0 (Num float64 0) 1 None = Inr h'
         \<and> data h' 0 = data shared_store 0 \<and> data h' 2 = data shared_store 2
         \<and> array (objects h' ! 0) = 2 \<and> array (objects h' ! 2) = 0
         \<and> counters h' = [1, 1, 1])"
proof -
  have w: "well_formed shared_store" by (simp add: well_formed_def shared_store_def)
  have v: "0 < length (objects shared_store)" by (simp add: shared_store_def)
  have c: "1 < the_count shared_store 0" by (simp add: shared_store_def the_count_def)
  have i: "check_ind_unique (len (objects shared_store ! 0)) None"
    by (simp add: check_ind_unique_def)
  have d: "dim shared_store 0 = dim shared_store 1"
    by (simp add: dim_def the_array_def shared_store_def)
  have l: "len_ind (len (objects shared_store ! 0)) None = len (objects shared_store ! 1)
        \<or> len (objects shared_store ! 1) = 1"
    by (simp add: shared_store_def)
  have a: "check_alpha (Num float64 (0::int)) (len_ind (len (objects shared_store ! 0)) None)"
    by simp
  have z: "all_eq (Num float64 (0::int)) 0" by simp
  from axpy_zero_splits [OF w v c i d l a z, of False]
  obtain h' where h': "axpy False shared_store 0 (Num float64 0) 1 None = Inr h'"
    "\<forall>g<length (objects shared_store). data h' g = data shared_store g"
    "objects h' = (objects shared_store)[0 := (objects shared_store ! 0)
        \<lparr>array := length (arrays shared_store), refcount := length (counters shared_store)\<rparr>]"
    "counters h' = (counters shared_store)[refcount (objects shared_store ! 0) :=
        the_count shared_store 0 - 1] @ [1]"
    by blast
  have "data h' 0 = data shared_store 0" "data h' 2 = data shared_store 2"
    using h'(2) by (simp_all add: shared_store_def)
  moreover have "array (objects h' ! 0) = 2" "array (objects h' ! 2) = 0"
    "counters h' = [1, 1, 1]"
    by (simp_all add: h'(3,4) shared_store_def the_count_def)
  ultimately show ?thesis using w v c i d l a z h'(1) by blast
qed

text \<open>
  C7.  With a uniform \<open>alpha\<close> of one the addition branch, and with a uniform \<open>alpha\<close> of
  minus one the subtraction branch, give what the multiply-and-add branch gives for that
  \<open>alpha\<close>: \<open>axpy\<close> and \<open>axpy_general\<close> return the same store (or the same error).  With
  an \<open>alpha\<close> that is uniformly zero and operands that pass the assertions, \<open>axpy\<close>
  returns and the logical contents of the array are what they were.
\<close>

theorem axpy_fast_paths:
  fixes h :: "'a::ring_1 heap"
  assumes wf: "well_formed h" and v: "v < length (objects h)" and x: "x < length (objects h)"
  shows "(all_eq alpha 1 \<or> all_eq alpha (- 1) \<longrightarrow>
            axpy quirk h v alpha x ind = axpy_general quirk h v alpha x ind)
       \<and> (all_eq alpha 0 \<and> check_ind_unique (len (objects h ! v)) ind \<and> dim h v = dim h x
            \<and> (len_ind (len (objects h ! v)) ind = len (objects h ! x) \<or> len (objects h ! x) = 1)
            \<and> check_alpha alpha (len_ind (len (objects h ! v)) ind) \<longrightarrow>
          (\<exists>h'. axpy quirk h v alpha x ind = Inr h' \<and> data h' v = data h v))"
proof
  show "all_eq alpha 1 \<or> all_eq alpha (- 1) \<longrightarrow>
            axpy quirk h v alpha x ind = axpy_general quirk h v alpha x ind"
  proof
    assume pm: "all_eq alpha 1 \<or> all_eq alpha (- 1)"
    let ?n = "len (objects h ! v)"
    let ?h1 = "unshare h v"
    let ?ind1 = "if quirk \<and> len (objects ?h1 ! v) = 0 \<and> has_len ind then None else ind"
    let ?B = "data ?h1 x"
    let ?h2 = "if dtype (the_array ?h1 v) \<noteq> alpha_dtype alpha
                       \<or> dtype (the_array ?h1 v) \<noteq> dtype (the_array ?h1 x)
                    then astype ?h1 v
                           (promote_types (promote_types (dtype (the_array ?h1 v)) (alpha_dtype alpha))
                              (dtype (the_array ?h1 x)))
                    else ?h1"
    show "axpy quirk h v alpha x ind = axpy_general quirk h v alpha x ind"
    proof (cases "check_ind_unique ?n ind \<and> dim h v = dim h x
        \<and> (len_ind ?n ind = len (objects h ! x) \<or> len (objects h ! x) = 1)
        \<and> check_alpha alpha (len_ind ?n ind) \<and> \<not> all_eq alpha 0")
      case False
      then show ?thesis by (auto simp: axpy_def axpy_general_def Let_def)
    next
      case True
      have wf1: "well_formed ?h1" and v1: "v < length (objects ?h1)"
        using wf v by (simp_all add: wf_unshare unshare_object)
      have len2: "len (objects ?h2 ! v) = ?n"
        using unshare_object(1) [OF wf v v] astype_object(1) [OF wf1 v1 v1] by simp
      have rows2: "rows (the_array ?h2 v) = rows (the_array h v)"
        using unshare_object(2) [OF wf v v] astype_object(2) [OF wf1 v1 v1] by simp
      have cap: "len (objects ?h2 ! v) \<le> length (rows (the_array ?h2 v))"
        using wf_object [OF wf v] by (simp only: len2 rows2)
      have sel: "selected ?h2 v ?ind1 = len_ind ?n ind"
      proof (cases "quirk \<and> len (objects ?h1 ! v) = 0 \<and> has_len ind")
        case q: True
        then obtain js where ind: "ind = Some (List js)"
          by (auto simp: has_len_def split: option.splits index.splits)
        have "?n = 0" using q unshare_object(1) [OF wf v v] by simp
        then have "js = []" using True ind check_ind_unique_empty by simp
        then show ?thesis using q ind \<open>?n = 0\<close> len2
          by (simp add: selected_def len_ind_def)
      next
        case False
        then show ?thesis using len2
          by (auto simp: selected_def len_ind_def split: option.splits index.splits)
      qed
      have lB: "length ?B = len (objects h ! x)"
        using unshare_object(4) [OF wf v x] wf_object [OF wf x] by (simp add: data_def)
      have ca: "check_alpha alpha (selected ?h2 v ?ind1)" using True sel by simp
      have cB: "length ?B = selected ?h2 v ?ind1 \<or> length ?B = 1"
        using True sel lB by auto
      have "(if all_eq alpha 1 then axpy_add ?h2 v ?ind1 ?B
             else if all_eq alpha (- 1) then axpy_sub ?h2 v ?ind1 ?B
             else axpy_mul ?h2 v ?ind1 ?B alpha) = axpy_mul ?h2 v ?ind1 ?B alpha"
        using axpy_add_mul [OF cap ca cB] by simp
      then show ?thesis
        using True unfolding axpy_def axpy_general_def Let_def by simp
    qed
  qed
next
  show "all_eq alpha 0 \<and> check_ind_unique (len (objects h ! v)) ind \<and> dim h v = dim h x
            \<and> (len_ind (len (objects h ! v)) ind = len (objects h ! x) \<or> len (objects h ! x) = 1)
            \<and> check_alpha alpha (len_ind (len (objects h ! v)) ind) \<longrightarrow>
          (\<exists>h'. axpy quirk h v alpha x ind = Inr h' \<and> data h' v = data h v)"
    using unshare_object(4) [OF wf v v] by (auto simp: axpy_def Let_def)
qed

theorem axpy_fast_paths_witness:
  "well_formed shared_store \<and> 0 < length (objects shared_store) \<and> 1 < length (objects shared_store)
   \<and> all_eq (Num int64 (- 1 :: int)) (- 1)
   \<and> axpy False shared_store 0 (Num int64 (- 1)) 1 None
        = axpy_general False shared_store 0 (Num int64 (- 1)) 1 None
   \<and> axpy_general False shared_store 0 (Num int64 (- 1)) 1 None
        = Inr \<lparr>arrays = arrays shared_store @ [\<lparr>rows = [[- 4, - 4], [- 2, - 10], [0, 0]], ncols = 2, dtype = int64\<rparr>],
               counters = [1, 1, 1],
               objects = [\<lparr>array = 2, len = 2, refcount = 2\<rparr>, \<lparr>array = 1, len = 1, refcount = 1\<rparr>,
                          \<lparr>array = 0, len = 2, refcount = 0\<rparr>]\<rparr>
   \<and> all_eq (Num int64 (0::int)) 0
   \<and> check_ind_unique (len (objects shared_store ! 0)) (Some (Number 1))
   \<and> dim shared_store 0 = dim shared_store 1
   \<and> (len_ind (len (objects shared_store ! 0)) (Some (Number 1)) = len (objects shared_store ! 1)
        \<or> len (objects shared_store ! 1) = 1)
   \<and> check_alpha (Num int64 (0::int)) (len_ind (len (objects shared_store ! 0)) (Some (Number 1)))
   \<and> (\<exists>h'. axpy False shared_store 0 (Num int64 0) 1 (Some (Number 1)) = Inr h'
          \<and> data h' 0 = data shared_store 0)"
proof -
  have w: "well_formed shared_store" by (simp add: well_formed_def shared_store_def)
  have v: "0 < length (objects shared_store)" "1 < length (objects shared_store)"
    by (simp_all add: shared_store_def)
  have a: "all_eq (Num int64 (- 1 :: int)) (- 1)" by simp
  have z: "all_eq (Num int64 (0::int)) 0
   \<and> check_ind_unique (len (objects shared_store ! 0)) (Some (Number 1))
   \<and> dim shared_store 0 = dim shared_store 1
   \<and> (len_ind (len (objects shared_store ! 0)) (Some (Number 1)) = len (objects shared_store ! 1)
        \<or> len (objects shared_store ! 1) = 1)
   \<and> check_alpha (Num int64 (0::int)) (len_ind (len (objects shared_store ! 0)) (Some (Number 1)))"
    by (simp add: shared_store_def check_ind_unique_def dim_def the_array_def len_ind_def)
  have "\<exists>h'. axpy False shared_store 0 (Num int64 0) 1 (Some (Number 1)) = Inr h'
          \<and> data h' 0 = data shared_store 0"
    using axpy_fast_paths [OF w v, of "Num int64 0" False "Some (Number 1)"] z by blast
  moreover note z
  moreover
  have "axpy False shared_store 0 (Num int64 (- 1)) 1 None
        = axpy_general False shared_store 0 (Num int64 (- 1)) 1 None"
    using axpy_fast_paths [OF w v, of "Num int64 (- 1)" False None] a by blast
  moreover have "axpy_general False shared_store 0 (Num int64 (- 1)) 1 None
        = Inr \<lparr>arrays = arrays shared_store @ [\<lparr>rows = [[- 4, - 4], [- 2, - 10], [0, 0]], ncols = 2, dtype = int64\<rparr>],
               counters = [1, 1, 1],
               objects = [\<lparr>array = 2, len = 2, refcount = 2\<rparr>, \<lparr>array = 1, len = 1, refcount = 1\<rparr>,
                          \<lparr>array = 0, len = 2, refcount = 0\<rparr>]\<rparr>"
    by code_simp
  ultimately show ?thesis using w v a by blast
qed

subsection \<open>Selecting rows, and the first maximum\<close>

lemma remaining_filter:
  "remaining n js = map int (filter (\<lambda>i. int i \<notin> set js) [0..<n])"
proof -
  let ?ks = "map int (filter (\<lambda>i. int i \<notin> set js) [0..<n])"
  have "sorted ?ks" by (simp add: sorted_map sorted_wrt_filter flip: sorted_wrt_map)
  moreover have "distinct ?ks" by (simp add: distinct_map inj_on_def)
  moreover have "set ?ks = set (map int [0..<n]) - set js" by auto
  ultimately show ?thesis
    unfolding remaining_def
    by (metis sorted_list_of_set.idem_if_sorted_distinct)
qed

lemma rows_pos_nat:
  "\<forall>k\<in>set ks. k < m \<Longrightarrow> rows_pos m (map int ks) = Inr ks"
  by (induction ks) (simp_all add: row_pos_def)

lemma getitem_nat:
  "\<forall>k\<in>set ks. k < length (rows a) \<Longrightarrow> getitem a (map int ks) = Inr (a\<lparr>rows := map (\<lambda>p. rows a ! p) ks\<rparr>)"
  by (simp add: getitem_def rows_pos_nat)

lemma nths_bounded: "nths xs {i. i < length xs \<and> P i} = nths xs {i. P i}"
  unfolding nths_def
  by (rule arg_cong [where f = "map fst"], rule filter_cong) (auto dest: set_zip_rightD)

lemma map_nth_filter_nths:
  assumes "n \<le> length xs"
  shows "map (\<lambda>p. xs ! p) (filter P [0..<n]) = nths (take n xs) {i. P i}"
proof -
  have "filter P [0..<n] = nths [0..<n] {i. i < length [0..<n] \<and> P ([0..<n] ! i)}"
    by (rule filter_eq_nths)
  also have "\<dots> = nths [0..<n] {i. i < length [0..<n] \<and> P i}"
    by (rule arg_cong [where f = "nths [0..<n]"]) auto
  also have "\<dots> = nths [0..<n] {i. P i}"
    by (rule nths_bounded)
  finally have "map (\<lambda>p. xs ! p) (filter P [0..<n]) = nths (map (\<lambda>p. xs ! p) [0..<n]) {i. P i}"
    by (simp add: nths_map)
  moreover have "map (\<lambda>p. xs ! p) [0..<n] = take n xs"
    using assms by (simp add: list_eq_iff_nth_eq)
  ultimately show ?thesis by simp
qed

lemma length_remaining:
  assumes "distinct js" "\<forall>i\<in>set js. 0 \<le> i \<and> i < int n"
  shows "length (filter (\<lambda>i. int i \<notin> set js) [0..<n]) = n - length js"
proof -
  have "length (filter (\<lambda>i. int i \<notin> set js) [0..<n]) = card {i. i < n \<and> int i \<notin> set js}"
    by (simp add: length_filter_conv_card cong: conj_cong)
  also have "{i. i < n \<and> int i \<notin> set js} = {..<n} - nat ` set js"
    using assms(2) by (auto simp: image_iff) (metis nat_int)
  also have "card \<dots> = card {..<n} - card (nat ` set js)"
    using assms(2) by (intro card_Diff_subset) (auto simp: nat_less_iff)
  also have "card (nat ` set js) = length js"
  proof -
    have "inj_on nat (set js)"
      using assms(2) by (intro inj_onI) (metis nat_eq_iff2)
    then show ?thesis using assms(1) by (simp add: card_image distinct_card)
  qed
  finally show ?thesis by simp
qed


subsection \<open>The claims on append, remove and amax\<close>




text \<open>
  C6.  For a list \<open>js\<close> of distinct indices in \<open>[0, len(v))\<close>, \<open>remove\<close> returns; the
  logical rows afterwards are the rows whose index is not in \<open>js\<close>, in their order
  (\<open>nths\<close> keeps the elements at the positions of a set), the logical length is the old
  one minus the number of indices, and \<open>dim\<close> is unchanged.  \<open>remove\<close> without indices
  empties the array and keeps \<open>dim\<close>.
\<close>

theorem remove_rows:
  assumes wf: "well_formed h" and v: "v < length (objects h)"
  shows "(distinct js \<and> (\<forall>i\<in>set js. 0 \<le> i \<and> i < int (len (objects h ! v))) \<longrightarrow>
           (\<exists>h'. remove h v (Some (List js)) = Inr h'
              \<and> data h' v = nths (data h v) {i. int i \<notin> set js}
              \<and> len (objects h' ! v) = len (objects h ! v) - length js
              \<and> dim h' v = dim h v))
       \<and> (\<exists>h'. remove h v None = Inr h' \<and> len (objects h' ! v) = 0 \<and> data h' v = []
              \<and> dim h' v = dim h v)"
proof
  show "\<exists>h'. remove h v None = Inr h' \<and> len (objects h' ! v) = 0 \<and> data h' v = []
              \<and> dim h' v = dim h v"
    using remove_None_facts [OF wf v] by blast
  show "distinct js \<and> (\<forall>i\<in>set js. 0 \<le> i \<and> i < int (len (objects h ! v))) \<longrightarrow>
           (\<exists>h'. remove h v (Some (List js)) = Inr h'
              \<and> data h' v = nths (data h v) {i. int i \<notin> set js}
              \<and> len (objects h' ! v) = len (objects h ! v) - length js
              \<and> dim h' v = dim h v)"
  proof
    assume a: "distinct js \<and> (\<forall>i\<in>set js. 0 \<le> i \<and> i < int (len (objects h ! v)))"
    let ?n = "len (objects h ! v)"
    let ?h1 = "unshare h v"
    have ck: "check_ind ?n (Some (List js))" using a by (simp add: check_ind_def list_all_iff)
    have w1: "well_formed ?h1" and l1: "length (objects ?h1) = length (objects h)"
      and n1: "len (objects ?h1 ! v) = ?n" and a1: "the_array ?h1 v = the_array h v"
      and d1: "data ?h1 v = data h v"
      using wf v by (simp_all add: wf_unshare unshare_object)
    have cap: "?n \<le> length (rows (the_array h v))" using wf_object [OF wf v] by simp
    show "\<exists>h'. remove h v (Some (List js)) = Inr h'
              \<and> data h' v = nths (data h v) {i. int i \<notin> set js}
              \<and> len (objects h' ! v) = len (objects h ! v) - length js
              \<and> dim h' v = dim h v"
    proof (cases "js = []")
      case True
      have "nths (data h v) {i. int i \<notin> set js} = data h v"
        using True by (simp add: nths_all)
      then show ?thesis
        using True ck n1 d1 a1 by (simp add: remove_def Let_def dim_def)
    next
      case False
      let ?ks = "filter (\<lambda>i. int i \<notin> set js) [0..<?n]"
      let ?a = "(the_array h v)\<lparr>rows := map (\<lambda>p. rows (the_array h v) ! p) ?ks\<rparr>"
      let ?h' = "set_len (assign_array ?h1 v ?a) v (length (rows ?a))"
      have "getitem (the_array h v) (map int ?ks) = Inr ?a"
        using cap by (intro getitem_nat) auto
      then have e: "remove h v (Some (List js)) = Inr ?h'"
        using False ck n1 a1 by (simp add: remove_def Let_def remaining_filter)
      have vv: "v < length (objects ?h1)" using v l1 by simp
      have "data ?h' v = map (\<lambda>p. rows (the_array h v) ! p) ?ks"
        using vv by (simp add: data_def the_array_def set_len_simps assign_array_simps)
      also have "\<dots> = nths (data h v) {i. int i \<notin> set js}"
        using map_nth_filter_nths [OF cap] by (simp add: data_def)
      finally have "data ?h' v = nths (data h v) {i. int i \<notin> set js}" .
      moreover have "len (objects ?h' ! v) = ?n - length js"
        using vv length_remaining [of js ?n] a by (simp add: set_len_simps assign_array_simps)
      moreover have "dim ?h' v = dim h v"
        using vv by (simp add: dim_def the_array_def set_len_simps assign_array_simps)
      ultimately show ?thesis using e by blast
    qed
  qed
qed

theorem remove_rows_witness:
  "well_formed shared_store \<and> 0 < length (objects shared_store) \<and> distinct [1::int]
   \<and> (0 \<le> (1::int) \<and> (1::int) < int (len (objects shared_store ! 0)))
   \<and> (\<exists>h'. remove shared_store 0 (Some (List [1])) = Inr h'
          \<and> data h' 0 = [[1, 2]] \<and> len (objects h' ! 0) = 1 \<and> dim h' 0 = 2)
   \<and> (\<exists>h'. remove shared_store 0 None = Inr h' \<and> len (objects h' ! 0) = 0 \<and> dim h' 0 = 2)"
proof -
  have w: "well_formed shared_store" by (simp add: well_formed_def shared_store_def)
  have v: "0 < length (objects shared_store)" by (simp add: shared_store_def)
  have r: "0 \<le> (1::int) \<and> (1::int) < int (len (objects shared_store ! 0))"
    by (simp add: shared_store_def)
  have d: "nths (data shared_store 0) {i. int i \<notin> set [1]} = [[1, 2]]"
    "len (objects shared_store ! 0) - length [1::int] = 1" "dim shared_store 0 = 2"
    by (simp_all add: data_def dim_def the_array_def shared_store_def nths_Cons)
  have "(\<exists>h'. remove shared_store 0 (Some (List [1])) = Inr h'
          \<and> data h' 0 = [[1, 2]] \<and> len (objects h' ! 0) = 1 \<and> dim h' 0 = 2)
   \<and> (\<exists>h'. remove shared_store 0 None = Inr h' \<and> len (objects h' ! 0) = 0 \<and> dim h' 0 = 2)"
    using remove_rows [OF w v, of "[1]"] r d by auto
  then show ?thesis using w v r by simp
qed




section \<open>Properties of the conversion to matrices\<close>

subsection \<open>Kinds and products\<close>

lemma np_T_simps:
  "shape (np_T M) = (snd (shape M), fst (shape M))"
  "issparse (np_T M) = issparse M"
  "entries (np_T M) = map (\<lambda>j. map (\<lambda>i. entries M ! i ! j) [0..<fst (shape M)]) [0..<snd (shape M)]"
  by (simp_all add: np_T_def issparse_def split: option.splits)

lemma np_dot_Inr:
  assumes "np_dot A B = Inr M"
  shows "shape M = (fst (shape A), snd (shape B))" "entries M = product A B"
    "issparse M = (issparse A \<and> issparse B)" "snd (shape A) = fst (shape B)"
    "issparse A \<or> \<not> issparse B"
  using assms by (auto simp: np_dot_def product_def issparse_def split: if_splits)

lemma np_dot_defined:
  "snd (shape A) = fst (shape B) \<Longrightarrow> issparse A \<or> \<not> issparse B \<Longrightarrow> \<exists>M. np_dot A B = Inr M"
  by (auto simp: np_dot_def)

lemma product_transposed:
  fixes A B :: "'a::comm_semiring_1 matrix"
  assumes "snd (shape A) = fst (shape B)" and "shape Mt = (snd (shape B), fst (shape A))"
    and "entries Mt = product (np_T B) (np_T A)"
  shows "entries (np_T Mt) = product A B"
proof -
  let ?r = "fst (shape A)" and ?k = "snd (shape A)" and ?c = "snd (shape B)"
  have "entries (np_T Mt) ! i ! j = product A B ! i ! j" if "i < ?r" "j < ?c" for i j
  proof -
    have "entries (np_T Mt) ! i ! j = entries Mt ! j ! i"
      using that assms(2) by (simp add: np_T_simps)
    also have "\<dots> = sum_list (map (\<lambda>l. entries (np_T B) ! j ! l * entries (np_T A) ! l ! i) [0..<?k])"
      using that assms(1) by (simp add: assms(3) product_def np_T_simps)
    also have "\<dots> = sum_list (map (\<lambda>l. entries A ! i ! l * entries B ! l ! j) [0..<?k])"
      using that assms(1)
      by (intro arg_cong [where f = sum_list] map_cong refl) (simp add: np_T_simps mult.commute)
    also have "\<dots> = product A B ! i ! j"
      using that by (simp add: product_def)
    finally show ?thesis .
  qed
  moreover have "length (entries (np_T Mt)) = ?r" "length (product A B) = ?r"
    using assms(2) by (simp_all add: np_T_simps product_def)
  moreover have "length (entries (np_T Mt) ! i) = ?c" "length (product A B ! i) = ?c" if "i < ?r" for i
    using assms(2) that by (simp_all add: np_T_simps product_def)
  ultimately show ?thesis
    by (intro nth_equalityI) simp_all
qed

lemma action_Concatenation_product:
  fixes A B :: "'a::comm_semiring_1 matrix"
  assumes "snd (shape A) = fst (shape B)"
    and "format = None \<or> (issparse A \<or> \<not> issparse B)"
  shows "\<exists>M. action_Concatenation format B A = Inr M \<and> shape M = (fst (shape A), snd (shape B))
           \<and> entries M = product A B"
proof (cases "format = None \<and> \<not> issparse A \<and> issparse B")
  case True
  obtain Mt where Mt: "np_dot (np_T B) (np_T A) = Inr Mt"
    using np_dot_defined [of "np_T B" "np_T A"] assms(1) True by (auto simp: np_T_simps)
  have "entries (np_T Mt) = product A B"
    using np_dot_Inr(1,2) [OF Mt] assms(1) by (intro product_transposed) (simp_all add: np_T_simps)
  then show ?thesis
    using True Mt np_dot_Inr(1) [OF Mt] by (simp add: action_Concatenation_def np_T_simps)
next
  case False
  then have "issparse A \<or> \<not> issparse B" using assms(2) by auto
  then obtain M where M: "np_dot A B = Inr M"
    using np_dot_defined [OF assms(1)] by blast
  then show ?thesis
    using False np_dot_Inr(1,2) [OF M] by (auto simp: action_Concatenation_def)
qed

lemma collect_Inr:
  "collect xs = Inr ys \<Longrightarrow> xs = map Inr ys"
  by (induction xs arbitrary: ys) (auto split: sum.splits)

lemma sps_matrix_kind: "sps_matrix f M = Inr N \<Longrightarrow> issparse N \<and> f \<noteq> ''dense''"
  by (auto simp: sps_matrix_def issparse_def sparse_formats_def split: if_splits)

lemma asformat_kind: "asformat f M = Inr N \<Longrightarrow> issparse N \<and> f \<noteq> ''dense''"
  by (auto simp: asformat_def issparse_def sparse_formats_def split: if_splits)

lemma vstack_kind: "vstack Ms = Inr N \<Longrightarrow> \<not> issparse N"
  by (auto simp: vstack_def issparse_def split: list.splits if_splits)

lemma np_bmat_kind: "np_bmat blocks = Inr N \<Longrightarrow> \<not> issparse N"
  by (auto simp: np_bmat_def split: sum.splits dest: vstack_kind)

lemma sps_bmat_kind: "sps_bmat blocks (Some f) = Inr N \<Longrightarrow> issparse N \<and> f \<noteq> ''dense''"
  by (auto simp: sps_bmat_def split: sum.splits if_splits dest: asformat_kind)

lemma np_add_kind:
  "np_add A B = Inr N \<Longrightarrow> issparse N = (issparse A \<and> issparse B)"
  by (auto simp: np_add_def issparse_def split: if_splits)

lemma np_smul_kind: "issparse (np_smul c A) = issparse A"
  by (simp add: np_smul_def issparse_def)

lemma lincomb_rest_kind:
  "lincomb_rest res cs xs = Inr N \<Longrightarrow> issparse res = k
     \<Longrightarrow> \<forall>x\<in>set xs. \<forall>M. x = Inr M \<longrightarrow> issparse M = k \<Longrightarrow> issparse N = k"
proof (induction res cs xs arbitrary: N rule: lincomb_rest.induct)
  case (1 res cs)
  then show ?case by simp
next
  case (2 res x xs)
  then show ?case by simp
next
  case (3 res c cs x xs)
  from "3.prems"(1) obtain M res' where x: "x = Inr M" and a: "np_add res (np_smul c M) = Inr res'"
    and r: "lincomb_rest res' cs xs = Inr N"
    by (auto split: sum.splits)
  have "issparse M = k" using "3.prems"(3) x by simp
  then have "issparse res' = k"
    using np_add_kind [OF a] "3.prems"(2) by (auto simp: np_smul_kind)
  then show ?case
    using "3.IH" [OF x a r] "3.prems"(3) by simp
qed

lemma apply_kind:
  "ToMatrixRules_apply solve spsolve op format mu = Inr M \<Longrightarrow> format = Some f
     \<Longrightarrow> issparse M = (f \<noteq> ''dense'')"
proof (induction solve spsolve op format mu arbitrary: M rule: ToMatrixRules_apply.induct)
  case (1 solve spsolve N format mu)
  then show ?case
    by (auto simp: action_NumpyMatrixOperator_def toarray_def issparse_def
          dest: sps_matrix_kind asformat_kind split: if_splits)
next
  case (2 solve spsolve blocks format mu)
  then show ?case
    by (auto simp: action_BlockOperator_def Let_def
          dest: np_bmat_kind sps_bmat_kind split: sum.splits if_splits)
next
  case (3 solve spsolve operator range_product source_product format mu)
  show ?case
  proof (cases "f = ''dense''")
    case False
    then show ?thesis
      using "3.prems" by (auto simp: adjoint_format_def dest: sps_matrix_kind split: sum.splits)
  next
    case True
    from "3.prems"(1) obtain A res res' where A: "ToMatrixRules_apply solve spsolve operator format mu = Inr A"
      and res: "(case range_product of None \<Rightarrow> Inr (np_T A)
                 | Some rp \<Rightarrow>
                     (case ToMatrixRules_apply solve spsolve rp format mu of
                        Inl e \<Rightarrow> Inl e
                      | Inr R \<Rightarrow> adjoint_range format (np_T A) R)) = Inr res"
      and res': "(case source_product of
                        None \<Rightarrow> Inr res
                      | Some sp \<Rightarrow>
                          (case ToMatrixRules_apply solve spsolve sp format mu of
                             Inl e \<Rightarrow> Inl e
                           | Inr S \<Rightarrow> adjoint_source solve spsolve S res)) = Inr res'"
      and M: "adjoint_format format res' = Inr M"
      by (auto split: sum.splits)
    have dA: "\<not> issparse A" using "3.IH"(1) [OF A "3.prems"(2)] True by simp
    have dres: "\<not> issparse res"
    proof (cases range_product)
      case None
      then show ?thesis using res dA by (auto simp: np_T_simps)
    next
      case (Some rp)
      then obtain R where R: "ToMatrixRules_apply solve spsolve rp format mu = Inr R"
        and ar: "adjoint_range format (np_T A) R = Inr res"
        using res by (auto split: sum.splits)
      have "\<not> issparse R" using "3.IH"(2) [OF A Some R "3.prems"(2)] True by simp
      then show ?thesis
        using ar dA "3.prems"(2)
        by (auto simp: adjoint_range_def np_T_simps dest: np_dot_Inr(3))
    qed
    have dres': "\<not> issparse res'"
    proof (cases source_product)
      case None
      then show ?thesis using res' dres by simp
    next
      case (Some sp)
      then obtain S where S: "ToMatrixRules_apply solve spsolve sp format mu = Inr S"
        and as: "adjoint_source solve spsolve S res = Inr res'"
        using res' by (auto split: sum.splits)
      have "\<not> issparse S" using "3.IH"(3) [OF A res Some S "3.prems"(2)] True by simp
      then show ?thesis
        using as by (auto simp: adjoint_source_def linalg_solve_def issparse_def split: if_splits sum.splits)
    qed
    show ?thesis
      using M dres' True "3.prems"(2) by (simp add: adjoint_format_def)
  qed
next
  case (4 solve spsolve components source_dim format mu)
  then show ?case
    by (auto simp: action_ComponentProjection_def Let_def issparse_def
          dest: asformat_kind split: sum.splits if_splits)
next
  case (5 solve spsolve second first format mu)
  from "5.prems"(1) obtain A B where B: "ToMatrixRules_apply solve spsolve first format mu = Inr B"
    and A: "ToMatrixRules_apply solve spsolve second format mu = Inr A"
    and M: "action_Concatenation format B A = Inr M"
    by (auto split: sum.splits)
  have "issparse B = (f \<noteq> ''dense'')" "issparse A = (f \<noteq> ''dense'')"
    using "5.IH"(1) [OF B "5.prems"(2)] "5.IH"(2) [OF B A "5.prems"(2)] by simp_all
  then show ?case
    using M "5.prems"(2) by (auto simp: action_Concatenation_def dest: np_dot_Inr(3))
next
  case (6 solve spsolve source_dim format mu)
  then show ?case
    by (auto simp: action_IdentityOperator_def issparse_def dest: asformat_kind split: if_splits)
next
  case (7 solve spsolve operators evaluate_coefficients format mu)
  from "7.prems"(1) obtain c cs op0 ops M0 where cs: "evaluate_coefficients mu = c # cs"
    and ops: "operators = op0 # ops"
    and M0: "ToMatrixRules_apply solve spsolve op0 format mu = Inr M0"
    and r: "lincomb_rest (np_smul c M0) cs
              (map (\<lambda>b. ToMatrixRules_apply solve spsolve b format mu) ops) = Inr M"
    by (auto simp: Let_def split: list.splits sum.splits)
  have k0: "issparse (np_smul c M0) = (f \<noteq> ''dense'')"
    using "7.IH"(1) [OF refl cs ops M0 "7.prems"(2)] by (simp add: np_smul_kind)
  have "\<forall>x\<in>set (map (\<lambda>b. ToMatrixRules_apply solve spsolve b format mu) ops).
          \<forall>N. x = Inr N \<longrightarrow> issparse N = (f \<noteq> ''dense'')"
    using "7.IH"(2) [OF refl cs ops M0 _ _ "7.prems"(2)] by auto
  then show ?case
    using lincomb_rest_kind [OF r k0] by simp
next
  case (8 solve spsolve rs d transposed format mu)
  then show ?case
    by (auto simp: action_VectorArrayOperator_def Let_def np_T_def issparse_def
          dest: sps_matrix_kind split: if_splits)
next
  case (9 solve spsolve range_dim source_dim format mu)
  then show ?case
    by (auto simp: action_ZeroOperator_def issparse_def dest: sps_matrix_kind split: if_splits)
qed

subsection \<open>The claims on to_matrix\<close>

text \<open>
  C3.  When the children of a \<open>Concatenation\<close> convert to \<open>A\<close> (\<open>second\<close>) and \<open>B\<close>
  (\<open>first\<close>) and the product is defined, the rule returns a matrix of the shape of the
  product whose entries are those of \<open>A\<cdot>B\<close>, for every format; so does \<open>to_matrix\<close> for
  an operator that is assembled to such a node.  In particular for a sparse \<open>B\<close> and a
  dense \<open>A\<close> the transposed product \<open>first.T.dot(second.T).T\<close> is defined and has the
  entries of \<open>A\<cdot>B\<close>.  Multiplication of scalars is commutative.
\<close>

theorem concatenation_product:
  fixes A B :: "'a::comm_semiring_1 matrix"
  assumes A: "ToMatrixRules_apply solve spsolve second format mu = Inr A"
    and B: "ToMatrixRules_apply solve spsolve first format mu = Inr B"
    and s: "snd (shape A) = fst (shape B)"
  shows "(\<exists>M. ToMatrixRules_apply solve spsolve (Concatenation second first) format mu = Inr M
            \<and> shape M = (fst (shape A), snd (shape B)) \<and> entries M = product A B)
       \<and> ((format = None \<or> the format \<in> set (''dense'' # sparse_formats))
            \<and> assemble op mu = Inr (Concatenation second first) \<longrightarrow>
          (\<exists>M. to_matrix assemble solve spsolve op format mu = Inr M
            \<and> shape M = (fst (shape A), snd (shape B)) \<and> entries M = product A B))
       \<and> (issparse B \<and> \<not> issparse A \<longrightarrow>
          (\<exists>Mt. np_dot (np_T B) (np_T A) = Inr Mt
            \<and> shape (np_T Mt) = (fst (shape A), snd (shape B))
            \<and> entries (np_T Mt) = product A B))"
proof -
  have kinds: "format = None \<or> (issparse A \<or> \<not> issparse B)"
  proof (cases format)
    case None
    then show ?thesis by simp
  next
    case (Some f)
    then show ?thesis using apply_kind [OF A Some] apply_kind [OF B Some] by simp
  qed
  obtain M where M: "action_Concatenation format B A = Inr M"
    "shape M = (fst (shape A), snd (shape B))" "entries M = product A B"
    using action_Concatenation_product [OF s kinds] by blast
  have rule: "ToMatrixRules_apply solve spsolve (Concatenation second first) format mu = Inr M"
    using A B M(1) by simp
  have t: "\<exists>Mt. np_dot (np_T B) (np_T A) = Inr Mt
            \<and> shape (np_T Mt) = (fst (shape A), snd (shape B))
            \<and> entries (np_T Mt) = product A B" if sp: "issparse B" "\<not> issparse A"
  proof -
    obtain Mt where Mt: "np_dot (np_T B) (np_T A) = Inr Mt"
      using np_dot_defined [of "np_T B" "np_T A"] s sp by (auto simp: np_T_simps)
    have "entries (np_T Mt) = product A B"
      using np_dot_Inr(1,2) [OF Mt] s by (intro product_transposed) (simp_all add: np_T_simps)
    then show ?thesis using Mt np_dot_Inr(1) [OF Mt] by (simp add: np_T_simps)
  qed
  show ?thesis
    using rule M(2,3) t by (auto simp: to_matrix_def)
qed

theorem concatenation_product_witness:
  "ToMatrixRules_apply no_solve no_spsolve dense_row None ()
     = Inr \<lparr>shape = (1, 2), entries = [[1, 2]], scheme = None\<rparr>
   \<and> ToMatrixRules_apply no_solve no_spsolve csc_column None ()
     = Inr \<lparr>shape = (2, 1), entries = [[3], [4]], scheme = Some ''csc''\<rparr>
   \<and> assembled (Concatenation dense_row csc_column) () = Inr (Concatenation dense_row csc_column)
   \<and> (\<exists>M. to_matrix assembled no_solve no_spsolve (Concatenation dense_row csc_column) None ()
             = Inr M \<and> shape M = (1, 1) \<and> entries M = [[11]])"
proof -
  let ?A = "\<lparr>shape = (1, 2), entries = [[1, 2]], scheme = None\<rparr> :: int matrix"
  let ?B = "\<lparr>shape = (2, 1), entries = [[3], [4]], scheme = Some ''csc''\<rparr> :: int matrix"
  have a: "ToMatrixRules_apply no_solve no_spsolve dense_row None () = Inr ?A"
    by (simp add: dense_row_def action_NumpyMatrixOperator_def)
  have b: "ToMatrixRules_apply no_solve no_spsolve csc_column None () = Inr ?B"
    by (simp add: csc_column_def action_NumpyMatrixOperator_def)
  have s: "snd (shape ?A) = fst (shape ?B)" by simp
  have e: "assembled (Concatenation dense_row csc_column) () = Inr (Concatenation dense_row csc_column)"
    by (simp add: assembled_def)
  have p: "product ?A ?B = [[11]]" by code_simp
  have "\<exists>M. to_matrix assembled no_solve no_spsolve (Concatenation dense_row csc_column) None ()
             = Inr M \<and> shape M = (1, 1) \<and> entries M = [[11]]"
    using concatenation_product [OF a b s, of assembled "Concatenation dense_row csc_column"] e p
    by simp
  then show ?thesis using a b e by simp
qed

text \<open>
  C8.  The rule for a \<open>ZeroOperator\<close> with range dimension \<open>r\<close> and source dimension \<open>s\<close>
  returns the matrix of shape \<open>(r, s)\<close> whose entries are all zero: a CSC matrix without
  a format, an array for \<open>'dense'\<close>, a sparse matrix in the scheme asked for otherwise;
  so does \<open>to_matrix\<close> for an operator that is assembled to such a node.
\<close>

theorem zero_operator_matrix:
  "ToMatrixRules_apply solve spsolve (ZeroOperator r s) None mu
     = Inr \<lparr>shape = (r, s), entries = replicate r (replicate s 0), scheme = Some ''csc''\<rparr>
   \<and> ToMatrixRules_apply solve spsolve (ZeroOperator r s) (Some ''dense'') mu
     = Inr \<lparr>shape = (r, s), entries = replicate r (replicate s 0), scheme = None\<rparr>
   \<and> (\<forall>f\<in>set sparse_formats.
         ToMatrixRules_apply solve spsolve (ZeroOperator r s) (Some f) mu
           = Inr \<lparr>shape = (r, s), entries = replicate r (replicate s 0), scheme = Some f\<rparr>)
   \<and> (assemble op mu = Inr (ZeroOperator r s) \<longrightarrow>
         to_matrix assemble solve spsolve op None mu
           = Inr \<lparr>shape = (r, s), entries = replicate r (replicate s 0), scheme = Some ''csc''\<rparr>
         \<and> to_matrix assemble solve spsolve op (Some ''dense'') mu
           = Inr \<lparr>shape = (r, s), entries = replicate r (replicate s 0), scheme = None\<rparr>
         \<and> (\<forall>f\<in>set sparse_formats.
               to_matrix assemble solve spsolve op (Some f) mu
                 = Inr \<lparr>shape = (r, s), entries = replicate r (replicate s 0), scheme = Some f\<rparr>))"
proof -
  have d: "''dense'' \<notin> set sparse_formats" by (simp add: sparse_formats_def)
  have r1: "ToMatrixRules_apply solve spsolve (ZeroOperator r s) None mu
     = Inr \<lparr>shape = (r, s), entries = replicate r (replicate s 0), scheme = Some ''csc''\<rparr>"
    by (simp add: action_ZeroOperator_def zeros_def)
  have r2: "ToMatrixRules_apply solve spsolve (ZeroOperator r s) (Some ''dense'') mu
     = Inr \<lparr>shape = (r, s), entries = replicate r (replicate s 0), scheme = None\<rparr>"
    by (simp add: action_ZeroOperator_def zeros_def)
  have r3: "ToMatrixRules_apply solve spsolve (ZeroOperator r s) (Some f) mu
           = Inr \<lparr>shape = (r, s), entries = replicate r (replicate s 0), scheme = Some f\<rparr>"
    if "f \<in> set sparse_formats" for f
    using that d by (auto simp: action_ZeroOperator_def zeros_def sps_matrix_def)
  show ?thesis
    using r1 r2 r3 by (simp add: to_matrix_def)
qed

theorem zero_operator_matrix_witness:
  "''csr'' \<in> set sparse_formats
   \<and> assembled (ZeroOperator 3 4 :: (int, unit) operator) () = Inr (ZeroOperator 3 4)
   \<and> to_matrix assembled no_solve no_spsolve (ZeroOperator 3 4) (Some ''csr'') ()
       = Inr \<lparr>shape = (3, 4), entries = [[0, 0, 0, 0], [0, 0, 0, 0], [0, 0, 0, 0]],
              scheme = Some ''csr''\<rparr>
   \<and> to_matrix assembled no_solve no_spsolve (ZeroOperator 3 4) None ()
       = Inr \<lparr>shape = (3, 4), entries = [[0, 0, 0, 0], [0, 0, 0, 0], [0, 0, 0, 0]],
              scheme = Some ''csc''\<rparr>"
proof -
  have f: "''csr'' \<in> set sparse_formats" by (simp add: sparse_formats_def)
  have e: "assembled (ZeroOperator 3 4 :: (int, unit) operator) () = Inr (ZeroOperator 3 4)"
    by (simp add: assembled_def)
  have r: "replicate 3 (replicate 4 (0::int)) = [[0, 0, 0, 0], [0, 0, 0, 0], [0, 0, 0, 0]]"
    by code_simp
  show ?thesis
    using zero_operator_matrix [of no_solve no_spsolve 3 4 "()" assembled "ZeroOperator 3 4"] f e
    unfolding r by simp
qed

text \<open>
  C9 (as amended).  For a format string outside the recognized set, \<open>to_matrix\<close> fails
  its assertion (an \<open>AssertionError\<close>), whatever the operator, the assembly and the
  solvers are or would do: the assertion precedes the assembly and the rules.
\<close>

theorem invalid_format_fails:
  "f \<notin> set (''dense'' # sparse_formats) \<Longrightarrow>
     to_matrix assemble solve spsolve op (Some f) mu = Inl AssertionError"
  by (simp add: to_matrix_def)

theorem invalid_format_fails_witness:
  "''xyz'' \<notin> set (''dense'' # sparse_formats)
   \<and> to_matrix assembled no_solve no_spsolve (ZeroOperator 3 4) (Some ''xyz'') () = Inl AssertionError"
proof -
  have f: "''xyz'' \<notin> set (''dense'' # sparse_formats)" by (simp add: sparse_formats_def)
  show ?thesis using invalid_format_fails [OF f] f by simp
qed

text \<open>The claim as stated names another error than the one the assertion raises.\<close>

theorem invalid_format_counterexample:
  "to_matrix assembled no_solve no_spsolve (ZeroOperator 3 4) (Some ''xyz'') ()
     \<noteq> Inl InvalidFormatError"
  by (simp add: to_matrix_def sparse_formats_def)

text \<open>
  C2, at an input where the code fails.  Without a pinned format, for a sparse inner
  operator and a sparse range product the product \<open>A\<^sup>T\<cdot>R\<close> is sparse; with a dense source
  product the rule passes it to \<open>scipy.linalg.solve\<close>, which raises \<open>ValueError\<close> for a
  sparse argument, whatever the solvers compute.  Here \<open>A = 2\<close>, \<open>R = 3\<close>, \<open>S = 1\<close>, and
  the matrix \<open>M\<close> with \<open>S\<cdot>M = A\<^sup>T\<cdot>R\<close> would be \<open>6\<close>.
\<close>

theorem adjoint_sparse_product_dense_solve:
  "to_matrix assembled solve spsolve
     (AdjointOperator (csc_1x1 2) (Some (csc_1x1 3)) (Some (dense_1x1 1))) None ()
   = Inl ValueError"
  by (simp add: to_matrix_def assembled_def csc_1x1_def dense_1x1_def action_NumpyMatrixOperator_def
      adjoint_range_def adjoint_source_def linalg_solve_def np_dot_def np_T_def issparse_def)

end
